theory Spec2Isabelle
  imports Complex_Main
begin

section \<open>Strings as the frontend uses them\<close>

text \<open>
  A string is a list of character codes; the model covers the codes 0 to 255, on which
  the operations below act as their JavaScript counterparts do on the same code units.
\<close>

definition code :: "char \<Rightarrow> nat" where
  "code c = of_char c"

text \<open>The regular-expression classes \<^verbatim>\<open>[A-Z]\<close>, \<^verbatim>\<open>[a-z]\<close> and \<^verbatim>\<open>\d\<close>.\<close>

definition is_upper :: "char \<Rightarrow> bool" where
  "is_upper c \<longleftrightarrow> 65 \<le> code c \<and> code c \<le> 90"

definition is_lower :: "char \<Rightarrow> bool" where
  "is_lower c \<longleftrightarrow> 97 \<le> code c \<and> code c \<le> 122"

definition is_digit :: "char \<Rightarrow> bool" where
  "is_digit c \<longleftrightarrow> 48 \<le> code c \<and> code c \<le> 57"

text \<open>The class \<^verbatim>\<open>[!@#$%^&*(),.?":{}|<>]\<close> of \<^verbatim>\<open>validatePassword\<close>.\<close>

definition special_chars :: "char list" where
  "special_chars =
     [CHR ''!'', CHR ''@'', CHR ''#'', CHR ''$'', CHR ''%'', CHR ''^'', CHR ''&'', CHR ''*'',
      CHR ''('', CHR '')'', CHR '','', CHR ''.'', CHR ''?'', CHR 0x22, CHR '':'', CHR ''{'',
      CHR ''}'', CHR ''|'', CHR ''<'', CHR ''>'']"

definition is_special :: "char \<Rightarrow> bool" where
  "is_special c \<longleftrightarrow> c \<in> set special_chars"

text \<open>
  \<^verbatim>\<open>String.prototype.toLowerCase\<close> on one code unit below 256: the letters A to Z and
  the accented capitals U+00C0 to U+00DE (the multiplication sign U+00D7 apart) move up
  by 32, everything else stays.
\<close>

definition lower_char :: "char \<Rightarrow> char" where
  "lower_char c =
     (let n = code c in
      if (65 \<le> n \<and> n \<le> 90) \<or> (192 \<le> n \<and> n \<le> 222 \<and> n \<noteq> 215)
      then char_of (n + 32) else c)"

definition toLowerCase :: "string \<Rightarrow> string" where
  "toLowerCase s = map lower_char s"

text \<open>\<^verbatim>\<open>s.startsWith(p)\<close>, \<^verbatim>\<open>s.endsWith(p)\<close> and \<^verbatim>\<open>s.includes(p)\<close>.\<close>

definition startsWith :: "string \<Rightarrow> string \<Rightarrow> bool" where
  "startsWith s p \<longleftrightarrow> take (length p) s = p"

definition endsWith :: "string \<Rightarrow> string \<Rightarrow> bool" where
  "endsWith s p \<longleftrightarrow> length p \<le> length s \<and> drop (length s - length p) s = p"

fun str_includes :: "string \<Rightarrow> string \<Rightarrow> bool" where
  "str_includes [] p = (p = [])"
| "str_includes (c # cs) p = (startsWith (c # cs) p \<or> str_includes cs p)"


section \<open>\<^verbatim>\<open>utils/security.ts\<close>: password validation\<close>

text \<open>The result of both validators: \<^verbatim>\<open>{ isValid: boolean; errors: string[] }\<close>.\<close>

record 'e validation =
  isValid :: bool
  errors :: "'e list"

definition commonPatterns :: "string list" where
  "commonPatterns = [''123456'', ''password'', ''qwerty'', ''abc123'']"

definition has_common_pattern :: "string \<Rightarrow> bool" where
  "has_common_pattern password \<longleftrightarrow>
     list_ex (\<lambda>pattern. str_includes (toLowerCase password) pattern) commonPatterns"

definition msg_length :: string where
  "msg_length = ''Password must be at least 8 characters long''"

definition msg_upper :: string where
  "msg_upper = ''Password must contain at least one uppercase letter''"

definition msg_lower :: string where
  "msg_lower = ''Password must contain at least one lowercase letter''"

definition msg_number :: string where
  "msg_number = ''Password must contain at least one number''"

definition msg_special :: string where
  "msg_special = ''Password must contain at least one special character''"

definition msg_common :: string where
  "msg_common = ''Password contains common patterns''"

text \<open>\<^verbatim>\<open>errors.push(m)\<close> when the test holds, the list unchanged otherwise.\<close>

definition push_if :: "bool \<Rightarrow> 'a \<Rightarrow> 'a list \<Rightarrow> 'a list" where
  "push_if b m es = (if b then es @ [m] else es)"

definition validatePassword :: "string \<Rightarrow> string validation" where
  "validatePassword password =
     (let errors0 = [];
          errors1 = push_if (length password < 8) msg_length errors0;
          errors2 = push_if (\<not> list_ex is_upper password) msg_upper errors1;
          errors3 = push_if (\<not> list_ex is_lower password) msg_lower errors2;
          errors4 = push_if (\<not> list_ex is_digit password) msg_number errors3;
          errors5 = push_if (\<not> list_ex is_special password) msg_special errors4;
          errors6 = push_if (has_common_pattern password) msg_common errors5
      in \<lparr>isValid = (length errors6 = 0), errors = errors6\<rparr>)"

text \<open>The six rules of the claim, as tests on the password, and how many of them fail.\<close>

definition violated_rules :: "string \<Rightarrow> bool list" where
  "violated_rules p =
     [length p < 8,
      \<not> (\<exists>c \<in> set p. is_upper c),
      \<not> (\<exists>c \<in> set p. is_lower c),
      \<not> (\<exists>c \<in> set p. is_digit c),
      \<not> (\<exists>c \<in> set p. c \<in> set special_chars),
      \<exists>pattern \<in> set commonPatterns. str_includes (toLowerCase p) pattern]"


section \<open>\<^verbatim>\<open>utils/security.ts\<close>: upload validation\<close>

text \<open>The two fields of a browser \<^verbatim>\<open>File\<close> that the validator reads.\<close>

record upload_file =
  file_name :: string
  file_size :: nat

text \<open>
  The options object: \<^verbatim>\<open>maxSize\<close> in megabytes and \<^verbatim>\<open>allowedTypes\<close>, each of them
  optional.
\<close>

record upload_options =
  maxSize :: "real option"
  allowedTypes :: "string list option"

text \<open>
  The three messages of the validator, by their template: the size message carries the
  ceiling in megabytes, the type message the allowed list.
\<close>

datatype upload_error =
    FileSizeError real
  | FileTypeError "string list"
  | FileSecurityError

text \<open>\<^verbatim>\<open>options.maxSize || 10\<close>: an absent or zero ceiling gives the default.\<close>

definition effective_maxSize :: "upload_options \<Rightarrow> real" where
  "effective_maxSize options =
     (case maxSize options of None \<Rightarrow> 10 | Some m \<Rightarrow> if m = 0 then 10 else m)"

text \<open>\<^verbatim>\<open>options.allowedTypes || []\<close>.\<close>

definition effective_allowedTypes :: "upload_options \<Rightarrow> string list" where
  "effective_allowedTypes options =
     (case allowedTypes options of None \<Rightarrow> [] | Some ts \<Rightarrow> ts)"

text \<open>\<^verbatim>\<open>s.split(sep)\<close> for a one-character separator: never the empty list.\<close>

fun split_on :: "char \<Rightarrow> string \<Rightarrow> string list" where
  "split_on sep [] = [[]]"
| "split_on sep (c # cs) =
     (if c = sep then [] # split_on sep cs
      else (case split_on sep cs of
              [] \<Rightarrow> [[c]]
            | s # ss \<Rightarrow> (c # s) # ss))"

text \<open>\<^verbatim>\<open>xs.pop()\<close>: the last element, \<^verbatim>\<open>undefined\<close> on the empty array.\<close>

definition pop :: "'a list \<Rightarrow> 'a option" where
  "pop xs = (if xs = [] then None else Some (last xs))"

text \<open>\<^verbatim>\<open>file.name.split('.').pop()?.toLowerCase()\<close>.\<close>

definition fileExtension :: "string \<Rightarrow> string option" where
  "fileExtension name = map_option toLowerCase (pop (split_on CHR ''.'' name))"

text \<open>\<^verbatim>\<open>!fileExtension\<close>: \<^verbatim>\<open>undefined\<close> and the empty string are falsy.\<close>

definition falsy :: "string option \<Rightarrow> bool" where
  "falsy v = (case v of None \<Rightarrow> True | Some s \<Rightarrow> s = [])"

definition type_rejected :: "string list \<Rightarrow> string \<Rightarrow> bool" where
  "type_rejected allowed name \<longleftrightarrow>
     falsy (fileExtension name) \<or>
     \<not> (case fileExtension name of None \<Rightarrow> False | Some e \<Rightarrow> e \<in> set allowed)"

text \<open>
  The pattern \<^verbatim>\<open>/\.(exe|bat|cmd|com|scr|php|asp|jsp|py|pl)$/i\<close>: the name ends in a
  dot and one of the ten words, letters compared without case. Without the \<^verbatim>\<open>u\<close>
  flag only the letters A to Z fold onto a to z.
\<close>

definition dangerous_extensions :: "string list" where
  "dangerous_extensions =
     [''exe'', ''bat'', ''cmd'', ''com'', ''scr'', ''php'', ''asp'', ''jsp'', ''py'', ''pl'']"

definition fold_case :: "char \<Rightarrow> char" where
  "fold_case c = (if is_upper c then char_of (code c + 32) else c)"

definition dangerousPatterns :: "string \<Rightarrow> bool" where
  "dangerousPatterns name \<longleftrightarrow>
     list_ex (\<lambda>e. endsWith (map fold_case name) (CHR ''.'' # e)) dangerous_extensions"

definition validateFileUpload :: "upload_file \<Rightarrow> upload_options \<Rightarrow> upload_error validation" where
  "validateFileUpload file options =
     (let errors0 = [];
          maxSize = effective_maxSize options;
          allowedTypes = effective_allowedTypes options;
          errors1 = push_if (real (file_size file) > maxSize * 1024 * 1024)
                      (FileSizeError maxSize) errors0;
          errors2 = (if length allowedTypes > 0
                     then push_if (type_rejected allowedTypes (file_name file))
                            (FileTypeError allowedTypes) errors1
                     else errors1);
          errors3 = push_if (dangerousPatterns (file_name file)) FileSecurityError errors2
      in \<lparr>isValid = (length errors3 = 0), errors = errors3\<rparr>)"

text \<open>The ceiling in bytes that the size test compares with.\<close>

definition ceiling_bytes :: "upload_options \<Rightarrow> real" where
  "ceiling_bytes options = effective_maxSize options * 1024 * 1024"

text \<open>The extension of a name is allowed: the name has a non-empty one, in the list.\<close>

definition extension_allowed :: "string list \<Rightarrow> string \<Rightarrow> bool" where
  "extension_allowed allowed name \<longleftrightarrow>
     (case fileExtension name of None \<Rightarrow> False | Some e \<Rightarrow> e \<noteq> [] \<and> e \<in> set allowed)"


section \<open>\<^verbatim>\<open>utils/security.ts\<close>: the rate limiter\<close>

text \<open>
  \<^verbatim>\<open>createRateLimiter(maxRequests, timeWindow)\<close> returns a closure over the array
  \<^verbatim>\<open>requests\<close>, empty at first. The closure's state is that array; times are the
  integer milliseconds of \<^verbatim>\<open>Date.now()\<close>, \<^verbatim>\<open>maxRequests\<close> is a count.
\<close>

definition createRateLimiter :: "int list" where
  "createRateLimiter = []"

text \<open>
  The loop \<^verbatim>\<open>while (requests.length > 0 && now - requests[0] > timeWindow) requests.shift()\<close>.
\<close>

fun shift_old :: "int \<Rightarrow> int \<Rightarrow> int list \<Rightarrow> int list" where
  "shift_old timeWindow now [] = []"
| "shift_old timeWindow now (r # requests) =
     (if now - r > timeWindow then shift_old timeWindow now requests else r # requests)"

text \<open>One call of the closure at time \<open>now\<close>: the answer and the array afterwards.\<close>

definition limiter_call :: "nat \<Rightarrow> int \<Rightarrow> int \<Rightarrow> int list \<Rightarrow> bool \<times> int list" where
  "limiter_call maxRequests timeWindow now requests =
     (let requests' = shift_old timeWindow now requests
      in if length requests' \<ge> maxRequests then (False, requests')
         else (True, requests' @ [now]))"

text \<open>A sequence of calls, at the given times in order: the answers and the final array.\<close>

fun limiter_calls :: "nat \<Rightarrow> int \<Rightarrow> int list \<Rightarrow> int list \<Rightarrow> bool list \<times> int list" where
  "limiter_calls maxRequests timeWindow [] requests = ([], requests)"
| "limiter_calls maxRequests timeWindow (now # call_times) requests =
     (let (ok, requests') = limiter_call maxRequests timeWindow now requests;
          (oks, requests'') = limiter_calls maxRequests timeWindow call_times requests'
      in (ok # oks, requests''))"

text \<open>The times of the calls that were admitted (answered \<^verbatim>\<open>true\<close>).\<close>

definition admitted :: "int list \<Rightarrow> bool list \<Rightarrow> int list" where
  "admitted call_times oks = map fst (filter snd (zip call_times oks))"

text \<open>The calls admitted by a fresh limiter on a sequence of call times.\<close>

definition admitted_calls :: "nat \<Rightarrow> int \<Rightarrow> int list \<Rightarrow> int list" where
  "admitted_calls maxRequests timeWindow call_times =
     admitted call_times (fst (limiter_calls maxRequests timeWindow call_times createRateLimiter))"

text \<open>How many of the times \<open>ts\<close> lie in the trailing window of \<open>now\<close>.\<close>

definition in_trailing_window :: "int \<Rightarrow> int \<Rightarrow> int list \<Rightarrow> nat" where
  "in_trailing_window timeWindow now ts = length (filter (\<lambda>t. now - t \<le> timeWindow) ts)"

text \<open>How many of the times \<open>ts\<close> lie in the window from \<open>s\<close> to \<open>s + timeWindow\<close>.\<close>

definition in_window :: "int \<Rightarrow> int \<Rightarrow> int list \<Rightarrow> nat" where
  "in_window timeWindow s ts = length (filter (\<lambda>t. s \<le> t \<and> t \<le> s + timeWindow) ts)"

text \<open>
  The invariant of a limiter between calls: \<open>A\<close> are the times admitted so far, in
  order and none after the last call \<open>lst\<close>; the array \<open>rs\<close> is the end of \<open>A\<close>, and
  what was shifted out lies more than the window before the last call.
\<close>

definition lim_inv :: "int \<Rightarrow> int \<Rightarrow> int list \<Rightarrow> int list \<Rightarrow> bool" where
  "lim_inv W lst A rs \<longleftrightarrow> sorted A \<and> (\<forall>a \<in> set A. a \<le> lst) \<and>
     (\<exists>D. A = D @ rs \<and> (\<forall>d \<in> set D. lst - d > W))"


section \<open>The browser storage and the authentication token\<close>

text \<open>\<^verbatim>\<open>localStorage\<close>: a map from keys to strings, with \<^verbatim>\<open>null\<close> for a missing key.\<close>

type_synonym storage = "string \<rightharpoonup> string"

definition getItem :: "storage \<Rightarrow> string \<Rightarrow> string option" where
  "getItem s k = s k"

definition setItem :: "storage \<Rightarrow> string \<Rightarrow> string \<Rightarrow> storage" where
  "setItem s k v = s(k \<mapsto> v)"

definition removeItem :: "storage \<Rightarrow> string \<Rightarrow> storage" where
  "removeItem s k = s(k := None)"

text \<open>
  The login flow of \<^verbatim>\<open>AuthContext.tsx\<close> and \<^verbatim>\<open>services/api.ts\<close>, by what it does to
  the storage: a successful \<^verbatim>\<open>login\<close> stores the token of the response; a failed one
  throws before the store; \<^verbatim>\<open>logout\<close> (in the context and in \<^verbatim>\<open>authAPI\<close>) removes
  it; \<^verbatim>\<open>initAuth\<close> removes it when the profile request fails and leaves it otherwise.
\<close>

datatype auth_event =
    LoginOk string
  | LoginFailed
  | Logout
  | InitAuthOk
  | InitAuthFailed

fun auth_step :: "storage \<Rightarrow> auth_event \<Rightarrow> storage" where
  "auth_step s (LoginOk token) = setItem s ''authToken'' token"
| "auth_step s LoginFailed = s"
| "auth_step s Logout = removeItem s ''authToken''"
| "auth_step s InitAuthOk = s"
| "auth_step s InitAuthFailed =
     (case getItem s ''authToken'' of
        None \<Rightarrow> s
      | Some token \<Rightarrow> if token = [] then s else removeItem s ''authToken'')"

text \<open>The storage after a sequence of events of the login flow, from an empty storage.\<close>

definition login_flow :: "auth_event list \<Rightarrow> storage" where
  "login_flow events = foldl auth_step Map.empty events"

text \<open>A template literal prints \<^verbatim>\<open>null\<close> as the four letters.\<close>

definition template_string :: "string option \<Rightarrow> string" where
  "template_string v = (case v of None \<Rightarrow> ''null'' | Some s \<Rightarrow> s)"

text \<open>
  The request interceptor of \<^verbatim>\<open>services/api.ts\<close>: the Authorization header it sets,
  none when the stored token is missing or empty.
\<close>

definition interceptor_authorization :: "storage \<Rightarrow> string option" where
  "interceptor_authorization s =
     (case getItem s ''authToken'' of
        None \<Rightarrow> None
      | Some token \<Rightarrow> if token = [] then None else Some (''Token '' @ token))"

text \<open>
  \<^verbatim>\<open>generateReport\<close> of the bulk-report component: the token it reads and the
  Authorization header of its \<^verbatim>\<open>fetch\<close>.
\<close>

definition report_token :: "storage \<Rightarrow> string option" where
  "report_token s = getItem s ''token''"

definition report_authorization :: "storage \<Rightarrow> string" where
  "report_authorization s = ''Token '' @ template_string (report_token s)"


section \<open>\<^verbatim>\<open>AdvancedAnalytics.tsx\<close>: the numbers the dashboard shows\<close>

text \<open>
  Numbers are the values of finite doubles, taken as reals. \<^verbatim>\<open>Math.round(x)\<close> is the
  integer nearest to \<open>x\<close>, the upper one at a tie.
\<close>

definition Math_round :: "real \<Rightarrow> int" where
  "Math_round x = \<lfloor>x + 1 / 2\<rfloor>"

text \<open>\<^verbatim>\<open>x || 0\<close> for a number that may be missing.\<close>

definition or_zero :: "real option \<Rightarrow> real" where
  "or_zero v = (case v of None \<Rightarrow> 0 | Some x \<Rightarrow> x)"

text \<open>
  \<^verbatim>\<open>x.toFixed(1)\<close>: the sign is set aside, and the digits are those of the integer \<open>n\<close>
  for which \<open>n / 10\<close> is nearest to the magnitude, the larger \<open>n\<close> at a tie. The value
  below is the number that the printed string denotes.
\<close>

definition toFixed1_tenths :: "real \<Rightarrow> int" where
  "toFixed1_tenths x = (if x < 0 then - \<lfloor>- x * 10 + 1 / 2\<rfloor> else \<lfloor>x * 10 + 1 / 2\<rfloor>)"

definition toFixed1 :: "real \<Rightarrow> real" where
  "toFixed1 x = of_int (toFixed1_tenths x) / 10"

text \<open>The fields of \<^verbatim>\<open>StudentAnalytics\<close> and \<^verbatim>\<open>DashboardSummary\<close> that are aggregates.\<close>

record StudentAnalytics =
  completion_rate :: real
  avg_fluency_score :: real
  avg_accuracy_score :: real

record DashboardSummary =
  average_completion_rate :: "real option"

text \<open>
  What \<^verbatim>\<open>renderOverview\<close> prints before the percent sign of "Avg Completion", and what
  \<^verbatim>\<open>renderStudents\<close> prints for one student: the completion rate before its percent
  sign, and the two average scores before \<^verbatim>\<open>/5\<close>.
\<close>

definition overview_completion :: "DashboardSummary \<Rightarrow> int" where
  "overview_completion summary = Math_round (or_zero (average_completion_rate summary))"

definition student_completion :: "StudentAnalytics \<Rightarrow> int" where
  "student_completion student = Math_round (completion_rate student)"

definition student_fluency :: "StudentAnalytics \<Rightarrow> real" where
  "student_fluency student = toFixed1 (avg_fluency_score student)"

definition student_accuracy :: "StudentAnalytics \<Rightarrow> real" where
  "student_accuracy student = toFixed1 (avg_accuracy_score student)"

text \<open>
  The rounding rule in the words of the specification, "round to one decimal place":
  \<open>y\<close> is \<open>x\<close> rounded to one decimal place when \<open>y\<close> is a whole number of tenths and no
  further than half a tenth from \<open>x\<close>.
\<close>

definition rounded_to_one_decimal :: "real \<Rightarrow> real \<Rightarrow> bool" where
  "rounded_to_one_decimal x y \<longleftrightarrow> y * 10 = of_int \<lfloor>y * 10\<rfloor> \<and> \<bar>y - x\<bar> \<le> 1 / 20"


section \<open>\<^verbatim>\<open>types/index.ts\<close> and \<^verbatim>\<open>RecordingReview.tsx\<close>: reviewing recordings\<close>

datatype rec_status = Pending | Reviewed | Flagged

datatype review_grade = Excellent | Good | NeedsPractice

text \<open>The interface \<^verbatim>\<open>Recording\<close>; an optional field is an option.\<close>

record Recording =
  rec_id :: nat
  student_name :: string
  student_username :: string
  story_title :: string
  status :: rec_status
  grade :: "string option"
  teacher_feedback :: "string option"
  duration :: string
  audio_file :: "string option"
  attempt_number :: nat
  fluency_score :: "int option"
  accuracy_score :: "int option"
  created_at :: string
  updated_at :: "string option"

text \<open>The state \<^verbatim>\<open>reviewForm\<close> and its initial value.\<close>

record review_form =
  feedback :: string
  form_grade :: review_grade
  form_fluency_score :: int
  form_accuracy_score :: int

definition initial_form :: review_form where
  "initial_form =
     \<lparr>feedback = [], form_grade = Good, form_fluency_score = 3, form_accuracy_score = 3\<rparr>"

text \<open>The body of the request: \<^verbatim>\<open>{ ...reviewForm, recording_id: selectedRecording.id }\<close>.\<close>

record review_payload =
  payload_feedback :: string
  payload_grade :: review_grade
  payload_fluency_score :: int
  payload_accuracy_score :: int
  recording_id :: nat

definition review_payload_of :: "review_form \<Rightarrow> Recording \<Rightarrow> review_payload" where
  "review_payload_of form selected =
     \<lparr>payload_feedback = feedback form, payload_grade = form_grade form,
      payload_fluency_score = form_fluency_score form,
      payload_accuracy_score = form_accuracy_score form,
      recording_id = rec_id selected\<rparr>"

text \<open>
  The state of the component that the review touches. The audio player and the
  \<^verbatim>\<open>loading\<close> flag are left out: no handler below reads them.
\<close>

record review_state =
  recordings :: "Recording list"
  selectedRecording :: "Recording option"
  reviewForm :: review_form
  error :: string
  submitLoading :: bool

text \<open>The state once \<^verbatim>\<open>loadRecordings\<close> has stored the results of the response.\<close>

definition loaded :: "Recording list \<Rightarrow> review_state" where
  "loaded results =
     \<lparr>recordings = results, selectedRecording = None, reviewForm = initial_form,
      error = [], submitLoading = False\<rparr>"

definition handleSelectRecording :: "Recording \<Rightarrow> review_state \<Rightarrow> review_state" where
  "handleSelectRecording recording s =
     s\<lparr>selectedRecording := Some recording, reviewForm := initial_form\<rparr>"

text \<open>
  \<^verbatim>\<open>handleSubmitReview\<close>, with the outcome of the awaited request as an argument:
  \<open>True\<close> when \<^verbatim>\<open>submitReview\<close> resolved, \<open>False\<close> when it threw. The handler runs as
  one step. On success the list is mapped: the recordings with the selected id get
  the status \<^verbatim>\<open>reviewed\<close> and the feedback of the form, and nothing else.
\<close>

definition mark_reviewed :: "nat \<Rightarrow> string \<Rightarrow> Recording \<Rightarrow> Recording" where
  "mark_reviewed selected_id fb r =
     (if rec_id r = selected_id then r\<lparr>status := Reviewed, teacher_feedback := Some fb\<rparr>
      else r)"

definition handleSubmitReview :: "bool \<Rightarrow> review_state \<Rightarrow> review_state" where
  "handleSubmitReview resolved s =
     (case selectedRecording s of
        None \<Rightarrow> s
      | Some selected \<Rightarrow>
          if resolved
          then s\<lparr>recordings :=
                   map (mark_reviewed (rec_id selected) (feedback (reviewForm s)))
                     (recordings s),
                 selectedRecording := None, submitLoading := False\<rparr>
          else s\<lparr>error := ''Failed to submit review. Please try again.'',
                 submitLoading := False\<rparr>)"

text \<open>The two lists the component renders, and the cards with a review button.\<close>

definition pendingRecordings :: "review_state \<Rightarrow> Recording list" where
  "pendingRecordings s = filter (\<lambda>r. status r = Pending) (recordings s)"

definition reviewedRecordings :: "review_state \<Rightarrow> Recording list" where
  "reviewedRecordings s = filter (\<lambda>r. status r = Reviewed) (recordings s)"

definition selectable :: "review_state \<Rightarrow> Recording list" where
  "selectable s = pendingRecordings s @ take 6 (reviewedRecordings s)"

text \<open>\<^verbatim>\<open>!s.trim()\<close>: nothing but white space.\<close>

definition is_space :: "char \<Rightarrow> bool" where
  "is_space c \<longleftrightarrow> code c \<in> {9, 10, 11, 12, 13, 32, 160}"

definition blank :: "string \<Rightarrow> bool" where
  "blank s \<longleftrightarrow> list_all is_space s"

text \<open>
  What a teacher can do on the screen: press the button of a card that is rendered,
  change a field of the form while the dialog is open (the two score menus offer 1 to
  5), submit the form (the button is disabled while loading or while the feedback is
  blank), with the outcome of the request, and close the dialog. An event that the
  screen does not offer leaves the state as it is.
\<close>

datatype review_event =
    ClickReview Recording
  | ChangeFluency int
  | ChangeAccuracy int
  | ChangeGrade review_grade
  | ChangeFeedback string
  | SubmitForm bool
  | CloseDialog

fun review_step :: "review_state \<Rightarrow> review_event \<Rightarrow> review_state" where
  "review_step s (ClickReview r) =
     (if r \<in> set (selectable s) then handleSelectRecording r s else s)"
| "review_step s (ChangeFluency v) =
     (if selectedRecording s \<noteq> None \<and> 1 \<le> v \<and> v \<le> 5
      then s\<lparr>reviewForm := (reviewForm s)\<lparr>form_fluency_score := v\<rparr>\<rparr> else s)"
| "review_step s (ChangeAccuracy v) =
     (if selectedRecording s \<noteq> None \<and> 1 \<le> v \<and> v \<le> 5
      then s\<lparr>reviewForm := (reviewForm s)\<lparr>form_accuracy_score := v\<rparr>\<rparr> else s)"
| "review_step s (ChangeGrade g) =
     (if selectedRecording s \<noteq> None
      then s\<lparr>reviewForm := (reviewForm s)\<lparr>form_grade := g\<rparr>\<rparr> else s)"
| "review_step s (ChangeFeedback fb) =
     (if selectedRecording s \<noteq> None
      then s\<lparr>reviewForm := (reviewForm s)\<lparr>feedback := fb\<rparr>\<rparr> else s)"
| "review_step s (SubmitForm resolved) =
     (if selectedRecording s \<noteq> None \<and> \<not> submitLoading s \<and> \<not> blank (feedback (reviewForm s))
      then handleSubmitReview resolved s else s)"
| "review_step s CloseDialog = s\<lparr>selectedRecording := None\<rparr>"

definition review_run :: "review_state \<Rightarrow> review_event list \<Rightarrow> review_state" where
  "review_run s events = foldl review_step s events"

text \<open>
  How a recording of the list may differ after some steps from what it was: not at
  all, or, unless it was flagged, by the status \<^verbatim>\<open>reviewed\<close> and a feedback text.
\<close>

definition review_rel :: "Recording \<Rightarrow> Recording \<Rightarrow> bool" where
  "review_rel r0 r \<longleftrightarrow>
     r = r0 \<or>
     (status r0 \<noteq> Flagged \<and> teacher_feedback r \<noteq> None \<and>
      r = r0\<lparr>status := Reviewed, teacher_feedback := teacher_feedback r\<rparr>)"

text \<open>
  What holds of the state between steps: the ids of the list are distinct, and the
  selected recording is one of the list and is not flagged.
\<close>

definition review_inv :: "review_state \<Rightarrow> bool" where
  "review_inv s \<longleftrightarrow>
     distinct (map rec_id (recordings s)) \<and>
     (case selectedRecording s of
        None \<Rightarrow> True
      | Some selected \<Rightarrow> selected \<in> set (recordings s) \<and> status selected \<noteq> Flagged)"

text \<open>
  Modelled from the spec: the review endpoint of the backend, which is not among the
  sources (section 4.2). Given the rows of the recordings, the body of the request and
  the time, it fails with \<open>NotFound\<close> if the recording id does not exist, with
  \<open>AlreadyReviewed\<close> if the status is not pending, with \<open>InvalidScore\<close> if a score lies
  outside 1 to 5, and otherwise sets scores, feedback, grade, status and the updated
  timestamp of the row.
\<close>

datatype review_error = NotFound | AlreadyReviewed | InvalidScore

definition valid_score :: "int \<Rightarrow> bool" where
  "valid_score v \<longleftrightarrow> 1 \<le> v \<and> v \<le> 5"

definition grade_name :: "review_grade \<Rightarrow> string" where
  "grade_name g = (case g of Excellent \<Rightarrow> ''excellent'' | Good \<Rightarrow> ''good''
     | NeedsPractice \<Rightarrow> ''needs_practice'')"

text \<open>Modelled from the spec: the update of the row that an accepted review makes.\<close>

definition store_review :: "review_payload \<Rightarrow> string \<Rightarrow> Recording \<Rightarrow> Recording" where
  "store_review p now r =
     (if rec_id r = recording_id p
      then r\<lparr>status := Reviewed,
             fluency_score := Some (payload_fluency_score p),
             accuracy_score := Some (payload_accuracy_score p),
             teacher_feedback := Some (payload_feedback p),
             grade := Some (grade_name (payload_grade p)),
             updated_at := Some now\<rparr>
      else r)"

text \<open>
  Modelled from the spec: the review endpoint, with its three failures in the order in
  which the specification lists them.
\<close>

definition submit_review ::
  "Recording list \<Rightarrow> review_payload \<Rightarrow> string \<Rightarrow> review_error + Recording list" where
  "submit_review rows p now =
     (case find (\<lambda>r. rec_id r = recording_id p) rows of
        None \<Rightarrow> Inl NotFound
      | Some r \<Rightarrow>
          if status r \<noteq> Pending then Inl AlreadyReviewed
          else if \<not> valid_score (payload_fluency_score p) \<or>
                  \<not> valid_score (payload_accuracy_score p) then Inl InvalidScore
          else Inr (map (store_review p now) rows))"

text \<open>
  A submission from the screen to that backend: the handler sends the body built from
  the form and the selected recording, and continues on the outcome. The result is
  the outcome, the rows of the backend and the state of the screen afterwards.
\<close>

definition submit_to_backend ::
  "Recording list \<Rightarrow> string \<Rightarrow> review_state \<Rightarrow>
     (review_error + unit) option \<times> Recording list \<times> review_state" where
  "submit_to_backend rows now s =
     (case selectedRecording s of
        None \<Rightarrow> (None, rows, s)
      | Some selected \<Rightarrow>
          (case submit_review rows (review_payload_of (reviewForm s) selected) now of
             Inl e \<Rightarrow> (Some (Inl e), rows, handleSubmitReview False s)
           | Inr rows' \<Rightarrow> (Some (Inr ()), rows', handleSubmitReview True s)))"

text \<open>
  The recording of the scenario in the specification: a first attempt at "The Tortoise
  and the Hare", pending, and the steps of the teacher who reviews it with fluency 4,
  accuracy 3 and the feedback "Good pacing".
\<close>

definition tortoise_recording :: Recording where
  "tortoise_recording =
     \<lparr>rec_id = 1, student_name = ''S'', student_username = ''s'',
      story_title = ''The Tortoise and the Hare'', status = Pending, grade = None,
      teacher_feedback = None, duration = ''60'', audio_file = None, attempt_number = 1,
      fluency_score = None, accuracy_score = None, created_at = ''2024-01-01'',
      updated_at = None\<rparr>"

definition tortoise_review :: "review_event list" where
  "tortoise_review =
     [ClickReview tortoise_recording, ChangeFluency 4, ChangeAccuracy 3,
      ChangeFeedback ''Good pacing'', SubmitForm True]"

text \<open>
  The same recording once the backend holds its review, and the screen of a teacher who
  has opened it again from the list of reviewed recordings and typed a new feedback.
\<close>

definition reviewed_tortoise :: Recording where
  "reviewed_tortoise =
     tortoise_recording\<lparr>status := Reviewed, fluency_score := Some 4,
       accuracy_score := Some 3, teacher_feedback := Some ''Good pacing'',
       grade := Some ''good''\<rparr>"

definition second_review :: review_state where
  "second_review =
     review_run (loaded [reviewed_tortoise])
       [ClickReview reviewed_tortoise, ChangeFeedback ''Too fast'']"


section \<open>\<^verbatim>\<open>StoryReader.tsx\<close>: recording for an assignment\<close>

text \<open>The interface \<^verbatim>\<open>StudentAssignment\<close>, as the backend sends it to the student.\<close>

record StudentAssignment =
  assignment_id :: nat
  assignment_title :: string
  assignment_story_title :: string
  story_id :: nat
  due_date :: "string option"
  attempts_used :: nat
  is_completed :: bool
  can_attempt :: bool
  assigned_at :: string

text \<open>The fields of the form that \<^verbatim>\<open>handleRecordingComplete\<close> posts, the audio aside.\<close>

record recording_form =
  form_story :: nat
  form_assignment :: nat
  form_duration :: string
  form_file_size :: nat

text \<open>
  The properties of the reader (the story by its id, and the assignment when the story
  was opened from one), and its state: the flag \<^verbatim>\<open>showRecording\<close>, \<^verbatim>\<open>false\<close> at
  first, the uploads that the reader has posted, and how many of them still wait for
  their answer. Playing the audio touches none of these and is left out. The
  properties stay as they were when the reader was opened: the assignment card passes
  the assignment it was rendered with, and nothing reloads it after an upload.
\<close>

record reader_props =
  reader_story :: nat
  assignment :: "StudentAssignment option"

record reader_state =
  showRecording :: bool
  uploads :: "recording_form list"
  in_flight :: nat

definition reader_initial :: reader_state where
  "reader_initial = \<lparr>showRecording = False, uploads = [], in_flight = 0\<rparr>"

text \<open>\<^verbatim>\<open>disabled={assignment && !assignment.can_attempt}\<close> of the record button.\<close>

definition record_disabled :: "reader_props \<Rightarrow> bool" where
  "record_disabled props =
     (case assignment props of None \<Rightarrow> False | Some a \<Rightarrow> \<not> can_attempt a)"

definition handleStartRecording :: "reader_state \<Rightarrow> reader_state" where
  "handleStartRecording s = s\<lparr>showRecording := True\<rparr>"

text \<open>
  \<^verbatim>\<open>handleRecordingComplete\<close> up to its \<^verbatim>\<open>await\<close>: with an assignment the form is
  posted and the handler waits for the answer, the recorder still shown; without one
  the recorder is closed at once.
\<close>

definition handleRecordingComplete :: "reader_props \<Rightarrow> nat \<Rightarrow> reader_state \<Rightarrow> reader_state" where
  "handleRecordingComplete props blob_size s =
     (case assignment props of
        Some a \<Rightarrow>
          s\<lparr>uploads := uploads s @
               [\<lparr>form_story = reader_story props, form_assignment = assignment_id a,
                 form_duration = ''60'', form_file_size = blob_size\<rparr>],
            in_flight := in_flight s + 1\<rparr>
      | None \<Rightarrow> s\<lparr>showRecording := False\<rparr>)"

text \<open>
  The rest of the handler, once the answer to an upload has come, accepted or not:
  an alert, and the recorder is closed.
\<close>

definition upload_answered :: "reader_state \<Rightarrow> reader_state" where
  "upload_answered s = s\<lparr>in_flight := in_flight s - 1, showRecording := False\<rparr>"

text \<open>
  What can happen on the screen: the student presses the record button, which is
  rendered while the recorder is closed and acts unless it is disabled; while the
  recorder is shown, the student submits a recording (the submit button of the
  recorder has no guard against a second press) or goes back; and the answer to a
  posted upload arrives.
\<close>

datatype reader_event = ClickRecord | SubmitRecording nat | CancelRecording | UploadAnswered

fun reader_step :: "reader_props \<Rightarrow> reader_state \<Rightarrow> reader_event \<Rightarrow> reader_state" where
  "reader_step props s ClickRecord =
     (if \<not> showRecording s \<and> \<not> record_disabled props then handleStartRecording s else s)"
| "reader_step props s (SubmitRecording blob_size) =
     (if showRecording s then handleRecordingComplete props blob_size s else s)"
| "reader_step props s CancelRecording =
     (if showRecording s then s\<lparr>showRecording := False\<rparr> else s)"
| "reader_step props s UploadAnswered =
     (if in_flight s > 0 then upload_answered s else s)"

definition reader_run :: "reader_props \<Rightarrow> reader_event list \<Rightarrow> reader_state" where
  "reader_run props events = foldl (reader_step props) reader_initial events"

text \<open>
  Modelled from the spec: the recording store of the backend, which is not among the
  sources (sections 3 and 4.1). A progress row holds the attempts a student has used on
  an assignment and the limit of the assignment, \<open>-1\<close> standing for unlimited (the value
  of the "Unlimited" option in \<^verbatim>\<open>App.tsx\<close>). An upload is validated in the order of the
  specification: size below the ceiling, type in the allowed set, attempts used below
  the limit unless unlimited. An accepted upload adds one attempt and marks the
  assignment completed.
\<close>

datatype upload_rejection = PayloadTooLarge | UnsupportedMediaType | AttemptLimitExceeded

record progress_row =
  row_assignment :: nat
  row_attempts_used :: nat
  row_max_attempts :: int
  row_completed :: bool

record store_config =
  size_ceiling :: nat
  allowed_media :: "string list"

record upload_request =
  request_size :: nat
  request_media :: string

definition unlimited :: "progress_row \<Rightarrow> bool" where
  "unlimited row \<longleftrightarrow> row_max_attempts row = - 1"

definition allowance_left :: "progress_row \<Rightarrow> bool" where
  "allowance_left row \<longleftrightarrow> unlimited row \<or> int (row_attempts_used row) < row_max_attempts row"

text \<open>Modelled from the spec: the upload endpoint of the recording store.\<close>

definition upload_recording ::
  "store_config \<Rightarrow> progress_row \<Rightarrow> upload_request \<Rightarrow> upload_rejection + progress_row" where
  "upload_recording config row request =
     (if request_size request > size_ceiling config then Inl PayloadTooLarge
      else if request_media request \<notin> set (allowed_media config) then Inl UnsupportedMediaType
      else if \<not> allowance_left row then Inl AttemptLimitExceeded
      else Inr (row\<lparr>row_attempts_used := row_attempts_used row + 1, row_completed := True\<rparr>))"

text \<open>
  Modelled from the spec: the assignment as the backend reports it to the student,
  with \<open>can_attempt\<close> false once the allowance is used up (the scenario of section 8).
\<close>

definition reported_assignment :: "progress_row \<Rightarrow> string \<Rightarrow> string \<Rightarrow> nat \<Rightarrow> StudentAssignment" where
  "reported_assignment row title story sid =
     \<lparr>assignment_id = row_assignment row, assignment_title = title,
      assignment_story_title = story, story_id = sid, due_date = None,
      attempts_used = row_attempts_used row, is_completed = row_completed row,
      can_attempt = allowance_left row, assigned_at = []\<rparr>"

text \<open>
  The reader together with that backend. Every upload that a step of the reader posts
  is served by the backend on the row as it is then; what was served is kept with the
  attempts that were used at that moment and with the result.
\<close>

record served =
  served_request :: upload_request
  served_used :: nat
  served_result :: "upload_rejection + unit"

record session =
  backend_row :: progress_row
  reader :: reader_state
  outcomes :: "served list"

text \<open>
  The request that carries a form: the size of the recording and the type of the
  audio that the recorder produces.
\<close>

definition request_of :: "recording_form \<Rightarrow> upload_request" where
  "request_of form =
     \<lparr>request_size = form_file_size form, request_media = ''audio/webm;codecs=opus''\<rparr>"

definition serve :: "store_config \<Rightarrow> session \<Rightarrow> recording_form \<Rightarrow> session" where
  "serve config ss form =
     (case upload_recording config (backend_row ss) (request_of form) of
        Inl rejection \<Rightarrow>
          ss\<lparr>outcomes := outcomes ss @
               [\<lparr>served_request = request_of form,
                 served_used = row_attempts_used (backend_row ss),
                 served_result = Inl rejection\<rparr>]\<rparr>
      | Inr row' \<Rightarrow>
          ss\<lparr>backend_row := row',
             outcomes := outcomes ss @
               [\<lparr>served_request = request_of form,
                 served_used = row_attempts_used (backend_row ss),
                 served_result = Inr ()\<rparr>]\<rparr>)"

definition session_step ::
  "store_config \<Rightarrow> reader_props \<Rightarrow> session \<Rightarrow> reader_event \<Rightarrow> session" where
  "session_step config props ss e =
     (let reader' = reader_step props (reader ss) e;
          posted = drop (length (uploads (reader ss))) (uploads reader')
      in foldl (serve config) (ss\<lparr>reader := reader'\<rparr>) posted)"

definition session_start :: "progress_row \<Rightarrow> session" where
  "session_start row = \<lparr>backend_row = row, reader = reader_initial, outcomes = []\<rparr>"

definition session_run ::
  "store_config \<Rightarrow> reader_props \<Rightarrow> progress_row \<Rightarrow> reader_event list \<Rightarrow> session" where
  "session_run config props row events =
     foldl (session_step config props) (session_start row) events"


text \<open>
  The scenario of the specification: an assignment with three attempts, of which
  \<open>used\<close> are used, the reader opened on it at that moment, and a store that takes
  the audio of the recorder. In \<open>fourth_attempt\<close> the student opens the reader with
  one attempt left, uploads the third recording and, the reader still open, records
  and submits once more.
\<close>

definition tortoise_progress :: "nat \<Rightarrow> progress_row" where
  "tortoise_progress used =
     \<lparr>row_assignment = 7, row_attempts_used = used, row_max_attempts = 3,
      row_completed = (used > 0)\<rparr>"

definition tortoise_reader :: "nat \<Rightarrow> reader_props" where
  "tortoise_reader used =
     \<lparr>reader_story = 1,
      assignment = Some (reported_assignment (tortoise_progress used) ''Fables''
        ''The Tortoise and the Hare'' 1)\<rparr>"

definition recorder_store :: store_config where
  "recorder_store =
     \<lparr>size_ceiling = 10485760, allowed_media = [''audio/webm;codecs=opus'']\<rparr>"




section \<open>The flags of the analytics engine\<close>

text \<open>
  Modelled from the spec: the analytics engine of the backend, which is not among the
  sources; the frontend only lists flags, resolves one and triggers a run (sections 3
  and 4.3). A flag has a type and a severity; the engine is a pure function of the
  data, here the parameter \<open>rules\<close>, that yields flag emissions; an emission for a pair
  of student and flag type that has an unresolved flag updates severity and
  description of that flag in place, and otherwise creates a flag with a fresh id,
  unless a flag of the pair was resolved on the evaluation window of the run (the
  condition is not flagged again on the window that produced the resolution). An
  evaluation window is known by a number, and a resolved flag keeps the window on
  which it was resolved.
\<close>

datatype flag_kind = LowSubmissionRate | SubmissionGap | DecliningScores

datatype flag_severity = Low | Medium | High | Urgent

record StudentFlag =
  flag_id :: nat
  flag_student :: nat
  flag_type :: flag_kind
  severity :: flag_severity
  description :: string
  is_resolved :: bool
  resolution_notes :: "string option"
  resolved_window :: "nat option"

record emission =
  emitted_student :: nat
  emitted_type :: flag_kind
  emitted_severity :: flag_severity
  emitted_description :: string

definition unresolved_for :: "nat \<Rightarrow> flag_kind \<Rightarrow> StudentFlag \<Rightarrow> bool" where
  "unresolved_for student kind f \<longleftrightarrow>
     flag_student f = student \<and> flag_type f = kind \<and> \<not> is_resolved f"

definition has_unresolved :: "StudentFlag list \<Rightarrow> nat \<Rightarrow> flag_kind \<Rightarrow> bool" where
  "has_unresolved flags student kind \<longleftrightarrow> list_ex (unresolved_for student kind) flags"

definition unresolved_count :: "StudentFlag list \<Rightarrow> nat \<Rightarrow> flag_kind \<Rightarrow> nat" where
  "unresolved_count flags student kind = length (filter (unresolved_for student kind) flags)"

definition update_flag :: "emission \<Rightarrow> StudentFlag \<Rightarrow> StudentFlag" where
  "update_flag e f =
     (if unresolved_for (emitted_student e) (emitted_type e) f
      then f\<lparr>severity := emitted_severity e, description := emitted_description e\<rparr>
      else f)"

definition fresh_id :: "StudentFlag list \<Rightarrow> nat" where
  "fresh_id flags = Suc (fold max (map flag_id flags) 0)"

definition new_flag :: "nat \<Rightarrow> emission \<Rightarrow> StudentFlag" where
  "new_flag i e =
     \<lparr>flag_id = i, flag_student = emitted_student e, flag_type = emitted_type e,
      severity = emitted_severity e, description = emitted_description e,
      is_resolved = False, resolution_notes = None, resolved_window = None\<rparr>"

text \<open>
  Modelled from the spec: a flag of the pair was resolved on the evaluation window.
\<close>

definition resolved_on :: "nat \<Rightarrow> nat \<Rightarrow> flag_kind \<Rightarrow> StudentFlag \<Rightarrow> bool" where
  "resolved_on window student kind f \<longleftrightarrow>
     flag_student f = student \<and> flag_type f = kind \<and> is_resolved f \<and>
     resolved_window f = Some window"

definition suppressed :: "nat \<Rightarrow> StudentFlag list \<Rightarrow> nat \<Rightarrow> flag_kind \<Rightarrow> bool" where
  "suppressed window flags student kind \<longleftrightarrow>
     list_ex (resolved_on window student kind) flags"

text \<open>
  Modelled from the spec: one emission of the engine on an evaluation window, an
  update in place when the pair has an unresolved flag; otherwise nothing when a flag
  of the pair was resolved on this window, and a new flag if not.
\<close>

definition emit_flag :: "nat \<Rightarrow> StudentFlag list \<Rightarrow> emission \<Rightarrow> StudentFlag list" where
  "emit_flag window flags e =
     (if has_unresolved flags (emitted_student e) (emitted_type e)
      then map (update_flag e) flags
      else if suppressed window flags (emitted_student e) (emitted_type e)
      then flags
      else flags @ [new_flag (fresh_id flags) e])"

text \<open>
  Modelled from the spec: a run of the engine on an evaluation window and its data,
  the emissions of the rules in turn.
\<close>

definition run_engine ::
  "('d \<Rightarrow> emission list) \<Rightarrow> nat \<Rightarrow> 'd \<Rightarrow> StudentFlag list \<Rightarrow> StudentFlag list" where
  "run_engine rules window data flags = foldl (emit_flag window) flags (rules data)"

text \<open>
  Modelled from the spec: resolving a flag, the action of the teacher, on the
  evaluation window of the run that came before.
\<close>

definition resolve_flag :: "nat \<Rightarrow> string \<Rightarrow> nat \<Rightarrow> StudentFlag list \<Rightarrow> StudentFlag list" where
  "resolve_flag i notes window flags =
     map (\<lambda>f. if flag_id f = i
               then f\<lparr>is_resolved := True, resolution_notes := Some notes,
                      resolved_window := Some window\<rparr>
               else f) flags"

text \<open>
  An emission whose pair needs no new flag: it has an unresolved flag, or one that
  was resolved on the window.
\<close>

definition settled :: "nat \<Rightarrow> StudentFlag list \<Rightarrow> emission \<Rightarrow> bool" where
  "settled window flags e \<longleftrightarrow>
     has_unresolved flags (emitted_student e) (emitted_type e) \<or>
     suppressed window flags (emitted_student e) (emitted_type e)"

text \<open>At most one unresolved flag for every student and flag type.\<close>

definition one_unresolved :: "StudentFlag list \<Rightarrow> bool" where
  "one_unresolved flags \<longleftrightarrow>
     list_all (\<lambda>f. unresolved_count flags (flag_student f) (flag_type f) \<le> 1) flags"

text \<open>Two flags that differ at most in severity and description.\<close>

definition same_but_severity :: "StudentFlag \<Rightarrow> StudentFlag \<Rightarrow> bool" where
  "same_but_severity f g \<longleftrightarrow> g = f\<lparr>severity := severity g, description := description g\<rparr>"

text \<open>An example: a student without submissions, flagged by every run.\<close>

definition gap_rules :: "nat \<Rightarrow> emission list" where
  "gap_rules days =
     (if days > 7
      then [\<lparr>emitted_student = 1, emitted_type = SubmissionGap,
             emitted_severity = (if days > 14 then High else Medium),
             emitted_description = ''No submission''\<rparr>]
      else [])"


section \<open>Properties of password validation\<close>

lemma push_if_chain:
  "push_if b6 m6 (push_if b5 m5 (push_if b4 m4 (push_if b3 m3 (push_if b2 m2
     (push_if b1 m1 []))))) =
   map snd (filter fst (zip [b1, b2, b3, b4, b5, b6] [m1, m2, m3, m4, m5, m6]))"
  by (cases b1; cases b2; cases b3; cases b4; cases b5; cases b6) (simp_all add: push_if_def)

lemma length_flagged:
  "length bs = length ms \<Longrightarrow>
   length (map snd (filter fst (zip bs ms))) = length (filter id bs)"
  by (induction bs ms rule: list_induct2) simp_all

lemma distinct_flagged:
  "distinct ms \<Longrightarrow> distinct (map snd (filter fst (zip bs ms)))"
proof (induction ms arbitrary: bs)
  case Nil
  then show ?case by simp
next
  case (Cons m ms)
  show ?case
  proof (cases bs)
    case Nil
    then show ?thesis by simp
  next
    case (Cons b bs')
    have "m \<notin> snd ` set (zip bs' ms)"
      using Cons.prems by (auto dest: set_zip_rightD)
    then show ?thesis
      using Cons.IH [of bs'] Cons.prems Cons by auto
  qed
qed

lemma password_messages_distinct:
  "distinct [msg_length, msg_upper, msg_lower, msg_number, msg_special, msg_common]"
  by (simp add: msg_length_def msg_upper_def msg_lower_def msg_number_def msg_special_def
      msg_common_def)

lemma validatePassword_errors:
  "errors (validatePassword p) =
     map snd (filter fst (zip (violated_rules p)
       [msg_length, msg_upper, msg_lower, msg_number, msg_special, msg_common]))"
  unfolding validatePassword_def Let_def violated_rules_def has_common_pattern_def
    list_ex_iff is_special_def
  by (simp only: push_if_chain validation.select_convs)

lemma length_violated_rules: "length (violated_rules p) = 6"
  by (simp add: violated_rules_def)

text \<open>
  Claim C10. For every password \<open>p\<close>, \<open>validatePassword p\<close> has \<open>isValid = True\<close> exactly
  when \<open>p\<close> has at least 8 characters, contains an uppercase letter, a lowercase letter,
  a digit and a character of \<^verbatim>\<open>!@#$%^&*(),.?":{}|<>\<close>, and the lowercased \<open>p\<close> contains
  none of 123456, password, qwerty, abc123; and the error list holds exactly one
  message for each violated rule, each rule's own message, in the order of the rules
  (so it is non-empty whenever \<open>isValid\<close> is false).
\<close>

theorem validatePassword_iff:
  "isValid (validatePassword p) =
     (8 \<le> length p \<and> (\<exists>c \<in> set p. is_upper c) \<and> (\<exists>c \<in> set p. is_lower c) \<and>
      (\<exists>c \<in> set p. is_digit c) \<and> (\<exists>c \<in> set p. c \<in> set special_chars) \<and>
      \<not> (\<exists>pattern \<in> set commonPatterns. str_includes (toLowerCase p) pattern))
   \<and> errors (validatePassword p) =
       map snd (filter fst (zip (violated_rules p)
         [msg_length, msg_upper, msg_lower, msg_number, msg_special, msg_common]))
   \<and> length (errors (validatePassword p)) = length (filter id (violated_rules p))
   \<and> distinct (errors (validatePassword p))
   \<and> (isValid (validatePassword p) = (errors (validatePassword p) = []))"
proof -
  let ?msgs = "[msg_length, msg_upper, msg_lower, msg_number, msg_special, msg_common]"
  have empty: "isValid (validatePassword p) = (errors (validatePassword p) = [])"
    by (simp add: validatePassword_def Let_def)
  have len: "length (errors (validatePassword p)) = length (filter id (violated_rules p))"
    unfolding validatePassword_errors
    by (rule length_flagged) (simp add: length_violated_rules)
  have "isValid (validatePassword p) = (filter id (violated_rules p) = [])"
    using empty len by (metis length_0_conv)
  also have "\<dots> = (\<forall>b \<in> set (violated_rules p). \<not> b)"
    by (simp add: filter_empty_conv)
  also have "\<dots> =
     (8 \<le> length p \<and> (\<exists>c \<in> set p. is_upper c) \<and> (\<exists>c \<in> set p. is_lower c) \<and>
      (\<exists>c \<in> set p. is_digit c) \<and> (\<exists>c \<in> set p. c \<in> set special_chars) \<and>
      \<not> (\<exists>pattern \<in> set commonPatterns. str_includes (toLowerCase p) pattern))"
    unfolding violated_rules_def by (simp add: not_less)
  finally have valid: "isValid (validatePassword p) =
     (8 \<le> length p \<and> (\<exists>c \<in> set p. is_upper c) \<and> (\<exists>c \<in> set p. is_lower c) \<and>
      (\<exists>c \<in> set p. is_digit c) \<and> (\<exists>c \<in> set p. c \<in> set special_chars) \<and>
      \<not> (\<exists>pattern \<in> set commonPatterns. str_includes (toLowerCase p) pattern))" .
  have dist: "distinct (errors (validatePassword p))"
    unfolding validatePassword_errors
    by (rule distinct_flagged) (rule password_messages_distinct)
  from valid validatePassword_errors len dist empty show ?thesis by blast
qed

lemma violated_rules_strong:
  "violated_rules ''Abcdef1!'' = [False, False, False, False, False, False]"
  by code_simp

lemma violated_rules_weak:
  "violated_rules ''Password1'' = [False, False, False, False, True, True]"
  by code_simp

theorem validatePassword_iff_witness:
  "\<not> isValid (validatePassword ''Password1'') \<and>
   errors (validatePassword ''Password1'') = [msg_special, msg_common] \<and>
   isValid (validatePassword ''Abcdef1!'') \<and>
   errors (validatePassword ''Abcdef1!'') = []"
proof -
  note weak = validatePassword_iff [of "''Password1''"]
  note strong = validatePassword_iff [of "''Abcdef1!''"]
  have "errors (validatePassword ''Password1'') = [msg_special, msg_common]"
    using weak [THEN conjunct2, THEN conjunct1] by (simp add: violated_rules_weak)
  moreover have "errors (validatePassword ''Abcdef1!'') = []"
    using strong [THEN conjunct2, THEN conjunct1] by (simp add: violated_rules_strong)
  ultimately show ?thesis
    using weak [THEN conjunct2, THEN conjunct2, THEN conjunct2, THEN conjunct2]
      strong [THEN conjunct2, THEN conjunct2, THEN conjunct2, THEN conjunct2]
    by simp
qed


section \<open>Properties of upload validation\<close>

lemma type_rejected_iff: "type_rejected allowed name \<longleftrightarrow> \<not> extension_allowed allowed name"
  by (auto simp add: type_rejected_def extension_allowed_def falsy_def split: option.splits)

lemma default_ceiling:
  "ceiling_bytes \<lparr>maxSize = None, allowedTypes = ts\<rparr> = 10 * 1024 * 1024"
  by (simp add: ceiling_bytes_def effective_maxSize_def)

lemma split_on_nonempty: "split_on sep s \<noteq> []"
  by (induction s) (auto split: list.splits)

lemma fileExtension_defined: "fileExtension name \<noteq> None"
  by (simp add: fileExtension_def pop_def split_on_nonempty)

text \<open>
  Claim C5. An upload larger than the ceiling (\<open>maxSize\<close> megabytes, 10 when none is
  given) is rejected with the size error; when an allowed set is configured, an upload
  whose extension (the lowercased text after the last dot of the name) is not in it is
  rejected with the type error; and \<open>isValid\<close> is true exactly when the size is within
  the ceiling, the extension is in the allowed set when one is configured, and the name
  does not end in one of the dangerous extensions.
\<close>

theorem validateFileUpload_iff:
  "(real (file_size file) > ceiling_bytes options \<longrightarrow>
      FileSizeError (effective_maxSize options) \<in> set (errors (validateFileUpload file options))
      \<and> \<not> isValid (validateFileUpload file options))
   \<and> (effective_allowedTypes options \<noteq> [] \<and>
        \<not> extension_allowed (effective_allowedTypes options) (file_name file) \<longrightarrow>
      FileTypeError (effective_allowedTypes options)
        \<in> set (errors (validateFileUpload file options))
      \<and> \<not> isValid (validateFileUpload file options))
   \<and> (isValid (validateFileUpload file options) \<longleftrightarrow>
        real (file_size file) \<le> ceiling_bytes options
        \<and> (effective_allowedTypes options = [] \<or>
            extension_allowed (effective_allowedTypes options) (file_name file))
        \<and> \<not> dangerousPatterns (file_name file))"
  by (auto simp add: validateFileUpload_def Let_def push_if_def ceiling_bytes_def
      type_rejected_iff)

lemma upload_example_large:
  "real (file_size \<lparr>file_name = ''take1.wav'', file_size = 10485761\<rparr>)
     > ceiling_bytes \<lparr>maxSize = None, allowedTypes = Some [''wav'', ''mp3'']\<rparr>"
  by (simp add: ceiling_bytes_def effective_maxSize_def)

lemma upload_example_extension:
  "fileExtension ''notes.TXT'' = Some ''txt'' \<and> fileExtension ''take1.wav'' = Some ''wav''"
  by code_simp

lemma upload_example_dangerous:
  "\<not> dangerousPatterns ''take1.wav'' \<and> \<not> dangerousPatterns ''notes.TXT''"
  by code_simp

theorem validateFileUpload_iff_witness:
  "\<not> isValid (validateFileUpload \<lparr>file_name = ''take1.wav'', file_size = 10485761\<rparr>
        \<lparr>maxSize = None, allowedTypes = Some [''wav'', ''mp3'']\<rparr>)
   \<and> \<not> isValid (validateFileUpload \<lparr>file_name = ''notes.TXT'', file_size = 2048\<rparr>
        \<lparr>maxSize = None, allowedTypes = Some [''wav'', ''mp3'']\<rparr>)
   \<and> isValid (validateFileUpload \<lparr>file_name = ''take1.wav'', file_size = 10485760\<rparr>
        \<lparr>maxSize = None, allowedTypes = Some [''wav'', ''mp3'']\<rparr>)"
proof -
  let ?opts = "\<lparr>maxSize = None, allowedTypes = Some [''wav'', ''mp3'']\<rparr>"
  have allowed: "effective_allowedTypes ?opts = [''wav'', ''mp3'']"
    by (simp add: effective_allowedTypes_def)
  have no_txt: "\<not> extension_allowed [''wav'', ''mp3''] ''notes.TXT''"
    using upload_example_extension by (simp add: extension_allowed_def)
  have ok_wav: "extension_allowed [''wav'', ''mp3''] ''take1.wav''"
    using upload_example_extension by (simp add: extension_allowed_def)
  have c: "ceiling_bytes ?opts = 10485760"
    by (simp add: ceiling_bytes_def effective_maxSize_def)
  have "\<not> isValid (validateFileUpload \<lparr>file_name = ''take1.wav'', file_size = 10485761\<rparr> ?opts)"
    using validateFileUpload_iff
      [of ?opts "\<lparr>file_name = ''take1.wav'', file_size = 10485761\<rparr>", THEN conjunct1]
      upload_example_large by simp
  moreover
  have "\<not> isValid (validateFileUpload \<lparr>file_name = ''notes.TXT'', file_size = 2048\<rparr> ?opts)"
    using validateFileUpload_iff
      [of ?opts "\<lparr>file_name = ''notes.TXT'', file_size = 2048\<rparr>",
        THEN conjunct2, THEN conjunct1] no_txt
    by (simp add: allowed)
  moreover
  have "isValid (validateFileUpload \<lparr>file_name = ''take1.wav'', file_size = 10485760\<rparr> ?opts)"
    using validateFileUpload_iff
      [of ?opts "\<lparr>file_name = ''take1.wav'', file_size = 10485760\<rparr>",
        THEN conjunct2, THEN conjunct2] ok_wav upload_example_dangerous
    by (simp add: allowed c)
  ultimately show ?thesis by blast
qed


section \<open>Properties of the rate limiter\<close>

lemma shift_old_sorted:
  "sorted rs \<Longrightarrow> shift_old W now rs = filter (\<lambda>t. now - t \<le> W) rs"
proof (induction rs)
  case Nil
  then show ?case by simp
next
  case (Cons r rs)
  show ?case
  proof (cases "now - r > W")
    case True
    then show ?thesis using Cons by simp
  next
    case False
    have "\<forall>t \<in> set rs. now - t \<le> W" using Cons.prems False by auto
    then have "filter (\<lambda>t. now - t \<le> W) rs = rs" by (simp add: filter_id_conv)
    then show ?thesis using False by simp
  qed
qed

lemma shift_old_inv:
  assumes "lim_inv W lst A rs" "lst \<le> now"
  shows "shift_old W now rs = filter (\<lambda>t. now - t \<le> W) A"
    and "lim_inv W now A (shift_old W now rs)"
proof -
  from assms obtain D where D: "A = D @ rs" "\<forall>d \<in> set D. lst - d > W" and s: "sorted A"
    and le: "\<forall>a \<in> set A. a \<le> lst"
    by (auto simp: lim_inv_def)
  have srs: "sorted rs" using s D by (simp add: sorted_append)
  have fD: "filter (\<lambda>t. now - t \<le> W) D = []" using D(2) assms(2) by (auto simp: filter_empty_conv)
  show 1: "shift_old W now rs = filter (\<lambda>t. now - t \<le> W) A"
    using shift_old_sorted[OF srs] fD D(1) by simp
  have "rs = filter (\<lambda>t. \<not> now - t \<le> W) rs @ filter (\<lambda>t. now - t \<le> W) rs"
    using srs
  proof (induction rs)
    case Nil then show ?case by simp
  next
    case (Cons r rs)
    show ?case
    proof (cases "now - r \<le> W")
      case True
      then have "\<forall>t \<in> set rs. now - t \<le> W" using Cons.prems by auto
      then have "filter (\<lambda>t. \<not> now - t \<le> W) rs = []" "filter (\<lambda>t. now - t \<le> W) rs = rs"
        by (auto simp: filter_empty_conv filter_id_conv)
      then show ?thesis using True by simp
    next
      case False
      then show ?thesis using Cons by simp
    qed
  qed
  then have "A = (D @ filter (\<lambda>t. \<not> now - t \<le> W) rs) @ shift_old W now rs"
    using D(1) shift_old_sorted[OF srs] by simp
  moreover have "\<forall>d \<in> set (D @ filter (\<lambda>t. \<not> now - t \<le> W) rs). now - d > W"
    using D(2) assms(2) by auto
  ultimately show "lim_inv W now A (shift_old W now rs)"
    using s le assms(2) unfolding lim_inv_def by (metis order_trans)
qed


lemma limiter_calls_Cons:
  "limiter_calls m W (now # ts) rs =
     (fst (limiter_call m W now rs) # fst (limiter_calls m W ts (snd (limiter_call m W now rs))),
      snd (limiter_calls m W ts (snd (limiter_call m W now rs))))"
  by (simp split: prod.splits)

lemma lim_inv_init: "lim_inv W lst [] []"
  by (simp add: lim_inv_def)

lemma length_filter_mono:
  "(\<And>x. x \<in> set xs \<Longrightarrow> P x \<Longrightarrow> Q x) \<Longrightarrow> length (filter P xs) \<le> length (filter Q xs)"
  by (induction xs) auto

lemma admitted_Cons:
  "admitted (t # ts) (ok # oks) = (if ok then t # admitted ts oks else admitted ts oks)"
  by (simp add: admitted_def)

lemma admitted_Nil: "admitted [] oks = []"
  by (simp add: admitted_def)

lemma lim_inv_push:
  assumes "lim_inv W now A rs"
  shows "lim_inv W now (A @ [now]) (rs @ [now])"
proof -
  from assms obtain D where D: "A = D @ rs" "\<forall>d \<in> set D. now - d > W" and s: "sorted A"
    and le: "\<forall>a \<in> set A. a \<le> now"
    by (auto simp: lim_inv_def)
  have "sorted (A @ [now])" using s le by (simp add: sorted_append)
  moreover have "A @ [now] = D @ (rs @ [now])" using D(1) by simp
  ultimately show ?thesis using D(2) le unfolding lim_inv_def by auto
qed

lemma window_push:
  assumes "lim_inv W lst A rs" "lst \<le> now" "length (shift_old W now rs) < m"
    and "\<forall>s. in_window W s A \<le> m"
  shows "in_window W s (A @ [now]) \<le> m"
proof (cases "s \<le> now \<and> now \<le> s + W")
  case False
  then show ?thesis using assms(4) by (auto simp add: in_window_def)
next
  case True
  have "length (filter (\<lambda>t. s \<le> t \<and> t \<le> s + W) A) \<le> length (filter (\<lambda>t. now - t \<le> W) A)"
    using True by (intro length_filter_mono) auto
  also have "\<dots> < m" using shift_old_inv(1)[OF assms(1,2)] assms(3) by simp
  finally show ?thesis using True by (simp add: in_window_def)
qed

lemma calls_step:
  assumes "lim_inv W lst A rs" "lst \<le> now"
  shows "lim_inv W now (A @ admitted [now] [fst (limiter_call m W now rs)])
           (snd (limiter_call m W now rs))"
  using shift_old_inv(2)[OF assms] lim_inv_push
  by (auto simp add: limiter_call_def Let_def admitted_Cons admitted_Nil)

lemma calls_window:
  assumes "lim_inv W lst A rs" "sorted (lst # ts)" "\<forall>s. in_window W s A \<le> m"
  shows "in_window W s (A @ admitted ts (fst (limiter_calls m W ts rs))) \<le> m"
  using assms
proof (induction ts arbitrary: lst A rs)
  case Nil
  then show ?case by (simp add: admitted_Nil)
next
  case (Cons now ts)
  have le: "lst \<le> now" and srt: "sorted (now # ts)" using Cons.prems(2) by auto
  let ?rs' = "shift_old W now rs"
  note inv' = shift_old_inv(2)[OF Cons.prems(1) le]
  show ?case
  proof (cases "length ?rs' \<ge> m")
    case True
    then have "limiter_call m W now rs = (False, ?rs')" by (simp add: limiter_call_def)
    then show ?thesis
      using Cons.IH[OF inv' srt Cons.prems(3)]
      by (simp add: admitted_Cons limiter_calls_Cons del: limiter_calls.simps(2))
  next
    case False
    then have c: "limiter_call m W now rs = (True, ?rs' @ [now])" by (simp add: limiter_call_def)
    have w: "\<forall>s. in_window W s (A @ [now]) \<le> m"
      using window_push[OF Cons.prems(1) le _ Cons.prems(3)] False by simp
    show ?thesis
      using Cons.IH[OF lim_inv_push[OF inv'] srt w] c
      by (simp add: admitted_Cons limiter_calls_Cons del: limiter_calls.simps(2))
  qed
qed

lemma calls_inv:
  assumes "lim_inv W lst A rs" "sorted (lst # ts)"
  shows "lim_inv W (last (lst # ts)) (A @ admitted ts (fst (limiter_calls m W ts rs)))
           (snd (limiter_calls m W ts rs))"
  using assms
proof (induction ts arbitrary: lst A rs)
  case Nil
  then show ?case by (simp add: admitted_Nil)
next
  case (Cons now ts)
  have le: "lst \<le> now" and srt: "sorted (now # ts)" using Cons.prems(2) by auto
  let ?rs' = "shift_old W now rs"
  note inv' = shift_old_inv(2)[OF Cons.prems(1) le]
  show ?case
  proof (cases "length ?rs' \<ge> m")
    case True
    then have "limiter_call m W now rs = (False, ?rs')" by (simp add: limiter_call_def)
    then show ?thesis
      using Cons.IH[OF inv' srt]
      by (simp add: admitted_Cons limiter_calls_Cons del: limiter_calls.simps(2))
  next
    case False
    then have c: "limiter_call m W now rs = (True, ?rs' @ [now])" by (simp add: limiter_call_def)
    show ?thesis
      using Cons.IH[OF lim_inv_push[OF inv'] srt] c
      by (simp add: admitted_Cons limiter_calls_Cons del: limiter_calls.simps(2))
  qed
qed

lemma limiter_calls_append:
  "limiter_calls m W (xs @ ys) rs =
     (fst (limiter_calls m W xs rs) @ fst (limiter_calls m W ys (snd (limiter_calls m W xs rs))),
      snd (limiter_calls m W ys (snd (limiter_calls m W xs rs))))"
  by (induction xs arbitrary: rs) (simp_all add: limiter_calls_Cons del: limiter_calls.simps(2))

lemma length_limiter_calls: "length (fst (limiter_calls m W ts rs)) = length ts"
  by (induction ts arbitrary: rs) (simp_all add: limiter_calls_Cons del: limiter_calls.simps(2))

lemma limiter_calls_nth:
  assumes "i < length ts"
  shows "fst (limiter_calls m W ts rs) ! i =
           fst (limiter_call m W (ts ! i) (snd (limiter_calls m W (take i ts) rs)))"
proof -
  have "ts = take i ts @ (ts ! i) # drop (Suc i) ts" using assms by (simp add: id_take_nth_drop)
  then have "fst (limiter_calls m W ts rs) ! i =
      (fst (limiter_calls m W (take i ts) rs) @
       fst (limiter_calls m W ((ts ! i) # drop (Suc i) ts) (snd (limiter_calls m W (take i ts) rs)))) ! i"
    by (metis limiter_calls_append fst_conv)
  also have "\<dots> = fst (limiter_calls m W ((ts ! i) # drop (Suc i) ts) (snd (limiter_calls m W (take i ts) rs))) ! 0"
    using assms by (simp add: nth_append length_limiter_calls)
  also have "\<dots> = fst (limiter_call m W (ts ! i) (snd (limiter_calls m W (take i ts) rs)))"
    by (simp add: limiter_calls_Cons del: limiter_calls.simps(2))
  finally show ?thesis .
qed

lemma call_true_trailing:
  assumes "sorted (pre @ [now])"
    and "fst (limiter_call m W now (snd (limiter_calls m W pre createRateLimiter)))"
  shows "in_trailing_window W now (admitted_calls m W pre) < m"
proof -
  let ?lst = "hd (pre @ [now])"
  have s: "sorted (?lst # pre)" using assms(1) by (cases pre) (auto simp: sorted_append)
  have le: "last (?lst # pre) \<le> now" using assms(1) by (cases pre rule: rev_cases) (auto simp: sorted_append)
  have inv: "lim_inv W (last (?lst # pre)) (admitted_calls m W pre) (snd (limiter_calls m W pre []))"
    using calls_inv[OF lim_inv_init s, of W m] by (simp add: admitted_calls_def createRateLimiter_def)
  have "length (shift_old W now (snd (limiter_calls m W pre []))) < m"
    using assms(2) by (auto simp add: limiter_call_def Let_def createRateLimiter_def split: if_splits)
  then show ?thesis
    using shift_old_inv(1)[OF inv le] by (simp add: in_trailing_window_def)
qed

text \<open>
  Claim C9. For a limiter made by \<open>createRateLimiter(maxRequests, timeWindow)\<close> and calls
  at nondecreasing times, a call answers true only if strictly fewer than
  \<open>maxRequests\<close> of the calls admitted before it lie within the trailing \<open>timeWindow\<close>
  milliseconds; hence every window of length \<open>timeWindow\<close> holds at most \<open>maxRequests\<close>
  admitted calls.
\<close>

theorem rate_limiter_bound:
  assumes "sorted ts"
  shows "(\<forall>i < length ts.
            fst (limiter_calls m W ts createRateLimiter) ! i \<longrightarrow>
            in_trailing_window W (ts ! i) (admitted_calls m W (take i ts)) < m)
         \<and> (\<forall>s. in_window W s (admitted_calls m W ts) \<le> m)"
proof (intro conjI allI impI)
  fix i assume i: "i < length ts"
    and ok: "fst (limiter_calls m W ts createRateLimiter) ! i"
  have "sorted (take i ts @ [ts ! i])"
    using assms i by (metis sorted_wrt_take take_Suc_conv_app_nth)
  moreover have "fst (limiter_call m W (ts ! i) (snd (limiter_calls m W (take i ts) createRateLimiter)))"
    using ok limiter_calls_nth[OF i] by simp
  ultimately show "in_trailing_window W (ts ! i) (admitted_calls m W (take i ts)) < m"
    by (rule call_true_trailing)
next
  fix s
  show "in_window W s (admitted_calls m W ts) \<le> m"
  proof (cases ts)
    case Nil
    then show ?thesis by (simp add: admitted_calls_def admitted_Nil in_window_def)
  next
    case (Cons t ts')
    have "sorted (t # ts)" using assms Cons by simp
    from calls_window[OF lim_inv_init this, of W m s]
    show ?thesis by (simp add: admitted_calls_def createRateLimiter_def in_window_def)
  qed
qed

lemma limiter_example_sorted: "sorted [0, 5, 10, 11, 16, 20, 21 :: int]"
  by simp

lemma limiter_example_answers:
  "fst (limiter_calls 2 10 [0, 5, 10, 11, 16, 20, 21] createRateLimiter) =
     [True, True, False, True, True, False, False]"
  by code_simp

theorem rate_limiter_bound_witness:
  "sorted [0, 5, 10, 11, 16, 20, 21 :: int]
   \<and> fst (limiter_calls 2 10 [0, 5, 10, 11, 16, 20, 21] createRateLimiter) ! 3
   \<and> in_trailing_window 10 ([0, 5, 10, 11, 16, 20, 21] ! 3)
        (admitted_calls 2 10 (take 3 [0, 5, 10, 11, 16, 20, 21])) < 2
   \<and> in_window 10 5 (admitted_calls 2 10 [0, 5, 10, 11, 16, 20, 21]) \<le> 2"
proof -
  note bound = rate_limiter_bound [OF limiter_example_sorted, where m = 2 and W = 10]
  have ok: "fst (limiter_calls 2 10 [0, 5, 10, 11, 16, 20, 21] createRateLimiter) ! 3"
    by (subst limiter_example_answers) simp
  have "in_trailing_window 10 ([0, 5, 10, 11, 16, 20, 21] ! 3)
        (admitted_calls 2 10 (take 3 [0, 5, 10, 11, 16, 20, 21])) < 2"
    using bound [THEN conjunct1, rule_format, of 3] ok by (simp del: limiter_calls.simps)
  moreover have "in_window 10 5 (admitted_calls 2 10 [0, 5, 10, 11, 16, 20, 21]) \<le> 2"
    using bound [THEN conjunct2, rule_format, of 5] .
  ultimately show ?thesis using ok limiter_example_sorted by blast
qed



section \<open>Properties of the token in the storage\<close>

lemma auth_step_other_key: "k \<noteq> ''authToken'' \<Longrightarrow> getItem (auth_step s e) k = getItem s k"
  by (cases e) (auto simp add: getItem_def setItem_def removeItem_def split: option.splits)

lemma foldl_auth_step_other_key:
  "k \<noteq> ''authToken'' \<Longrightarrow> getItem (foldl auth_step s events) k = getItem s k"
  by (induction events arbitrary: s) (simp_all add: auth_step_other_key)

lemma login_flow_token: "getItem (login_flow events) ''token'' = None"
  by (simp add: login_flow_def foldl_auth_step_other_key) (simp add: getItem_def)

lemma login_flow_snoc: "login_flow (events @ [e]) = auth_step (login_flow events) e"
  by (simp add: login_flow_def)

lemma str_includes_length: "str_includes s p \<Longrightarrow> length p \<le> length s"
proof (induction s)
  case Nil
  then show ?case by simp
next
  case (Cons c cs)
  then show ?case
  proof (cases "startsWith (c # cs) p")
    case True
    then have "length p = length (take (length p) (c # cs))" by (simp add: startsWith_def)
    then show ?thesis by (simp del: take_Suc_Cons)
  next
    case False
    then show ?thesis using Cons by auto
  qed
qed

text \<open>
  Claim C8. The report download reads the key \<open>token\<close>, the login flow writes the token
  only under \<open>authToken\<close>, the key the request interceptor reads. So in every storage
  reached through the login flow alone the report download reads \<open>null\<close>, its
  Authorization header is \<open>Token null\<close> whatever token is stored, and that header does
  not contain the token of the logged-in user (a token longer than the ten characters
  of the header value), while the interceptor sends \<open>Token\<close> followed by that token.
\<close>

theorem report_token_null:
  "report_token (login_flow events) = None
   \<and> report_authorization (login_flow events) = ''Token null''
   \<and> getItem (login_flow (events @ [LoginOk token])) ''authToken'' = Some token
   \<and> report_token (login_flow (events @ [LoginOk token])) = None
   \<and> (token \<noteq> [] \<longrightarrow>
        interceptor_authorization (login_flow (events @ [LoginOk token]))
          = Some (''Token '' @ token))
   \<and> (10 < length token \<longrightarrow>
        \<not> str_includes (report_authorization (login_flow (events @ [LoginOk token]))) token)"
proof -
  have null: "\<And>evs. report_token (login_flow evs) = None"
    by (simp add: report_token_def login_flow_token)
  have header: "\<And>evs. report_authorization (login_flow evs) = ''Token null''"
    by (simp add: report_authorization_def null template_string_def)
  have stored: "getItem (login_flow (events @ [LoginOk token])) ''authToken'' = Some token"
    by (simp add: login_flow_snoc getItem_def setItem_def)
  have sent: "token \<noteq> [] \<longrightarrow>
        interceptor_authorization (login_flow (events @ [LoginOk token]))
          = Some (''Token '' @ token)"
    by (simp add: interceptor_authorization_def stored)
  have absent: "10 < length token \<longrightarrow>
        \<not> str_includes (report_authorization (login_flow (events @ [LoginOk token]))) token"
    using str_includes_length [of "''Token null''" token] by (auto simp add: header)
  show ?thesis
    using null [of events] header [of events] stored null [of "events @ [LoginOk token]"]
      sent absent
    by (intro conjI) assumption+
qed

theorem report_token_null_witness:
  "report_authorization (login_flow [LoginOk ''9944b09199c62bcf'']) = ''Token null''
   \<and> interceptor_authorization (login_flow [LoginOk ''9944b09199c62bcf''])
       = Some ''Token 9944b09199c62bcf''
   \<and> \<not> str_includes (report_authorization (login_flow [LoginOk ''9944b09199c62bcf'']))
         ''9944b09199c62bcf''"
proof -
  note a = report_token_null [of "[LoginOk ''9944b09199c62bcf'']" "''9944b09199c62bcf''"]
  note b = report_token_null [of "[]" "''9944b09199c62bcf''"]
  have "report_authorization (login_flow [LoginOk ''9944b09199c62bcf'']) = ''Token null''"
    using a [THEN conjunct2, THEN conjunct1] .
  moreover
  have "interceptor_authorization (login_flow [LoginOk ''9944b09199c62bcf''])
       = Some ''Token 9944b09199c62bcf''"
    using b [THEN conjunct2, THEN conjunct2, THEN conjunct2, THEN conjunct2, THEN conjunct1]
    by simp
  moreover
  have "\<not> str_includes (report_authorization (login_flow [LoginOk ''9944b09199c62bcf'']))
         ''9944b09199c62bcf''"
    using b [THEN conjunct2, THEN conjunct2, THEN conjunct2, THEN conjunct2, THEN conjunct2]
    by simp
  ultimately show ?thesis by (intro conjI)
qed


section \<open>Properties of the dashboard's rounding\<close>

lemma Math_round_near: "real_of_int (Math_round x) - 1 / 2 \<le> x \<and> x < real_of_int (Math_round x) + 1 / 2"
  unfolding Math_round_def by linarith

lemma Math_round_int: "Math_round (of_int n) = n"
  unfolding Math_round_def by linarith

lemma floor_half_near: "\<bar>real_of_int \<lfloor>y + 1 / 2\<rfloor> - y\<bar> \<le> 1 / 2"
  by linarith

lemma toFixed1_tenths_near: "\<bar>real_of_int (toFixed1_tenths x) - x * 10\<bar> \<le> 1 / 2"
proof (cases "x < 0")
  case True
  define y where "y = - x * 10"
  have "real_of_int (toFixed1_tenths x) - x * 10 = - (real_of_int \<lfloor>y + 1 / 2\<rfloor> - y)"
    using True by (simp add: toFixed1_tenths_def y_def)
  then have "\<bar>real_of_int (toFixed1_tenths x) - x * 10\<bar> = \<bar>real_of_int \<lfloor>y + 1 / 2\<rfloor> - y\<bar>"
    by (simp only: abs_minus_cancel)
  then show ?thesis using floor_half_near [of y] by simp
next
  case False
  then have "toFixed1_tenths x = \<lfloor>x * 10 + 1 / 2\<rfloor>" by (simp add: toFixed1_tenths_def)
  then show ?thesis using floor_half_near [of "x * 10"] by simp
qed

lemma toFixed1_rounded: "rounded_to_one_decimal x (toFixed1 x)"
proof -
  have a: "toFixed1 x * 10 = of_int (toFixed1_tenths x)" by (simp add: toFixed1_def)
  have "toFixed1 x - x = (real_of_int (toFixed1_tenths x) - x * 10) / 10"
    by (simp add: toFixed1_def field_simps)
  then have "\<bar>toFixed1 x - x\<bar> = \<bar>real_of_int (toFixed1_tenths x) - x * 10\<bar> / 10"
    by (simp only: abs_divide abs_numeral)
  then have "\<bar>toFixed1 x - x\<bar> \<le> 1 / 20" using toFixed1_tenths_near [of x] by simp
  then show ?thesis unfolding rounded_to_one_decimal_def a by simp
qed

text \<open>
  Claim C3 says that every aggregate on the dashboard is rounded to one decimal place,
  as in the exported report. It fails for completion rates: a rate of 66.5 is shown as
  67, and 67 is not 66.5 rounded to one decimal place (which is 66.5 itself).
\<close>

theorem dashboard_completion_counterexample:
  "student_completion \<lparr>completion_rate = 133 / 2, avg_fluency_score = 4, avg_accuracy_score = 3\<rparr> = 67
   \<and> \<not> rounded_to_one_decimal (133 / 2)
         (of_int (student_completion
            \<lparr>completion_rate = 133 / 2, avg_fluency_score = 4, avg_accuracy_score = 3\<rparr>))
   \<and> overview_completion \<lparr>average_completion_rate = Some (133 / 2)\<rparr> = 67"
  by (simp add: student_completion_def overview_completion_def or_zero_def Math_round_def
      rounded_to_one_decimal_def)

text \<open>
  Claim C3, amended. The dashboard shows a student's average fluency and accuracy
  scores rounded to one decimal place (\<^verbatim>\<open>toFixed(1)\<close>), the rule of the report; it
  shows completion rates, the student's and the overview's (a missing one as 0),
  rounded to the nearest whole percent (\<^verbatim>\<open>Math.round\<close>, a half going up), so within
  half a percent of the value.
\<close>

theorem dashboard_rounding:
  "rounded_to_one_decimal (avg_fluency_score student) (student_fluency student)
   \<and> rounded_to_one_decimal (avg_accuracy_score student) (student_accuracy student)
   \<and> real_of_int (student_completion student) - 1 / 2 \<le> completion_rate student
   \<and> completion_rate student < real_of_int (student_completion student) + 1 / 2
   \<and> real_of_int (overview_completion summary) - 1 / 2 \<le> or_zero (average_completion_rate summary)
   \<and> or_zero (average_completion_rate summary) < real_of_int (overview_completion summary) + 1 / 2"
  using Math_round_near [of "completion_rate student"]
    Math_round_near [of "or_zero (average_completion_rate summary)"]
  by (simp add: student_fluency_def student_accuracy_def student_completion_def
      overview_completion_def toFixed1_rounded)

lemma rounding_examples:
  "toFixed1 (17 / 4) = 43 / 10 \<and> toFixed1 (- (1 / 4)) = - (3 / 10) \<and> Math_round (- (5 / 2)) = - 2"
  by (simp add: toFixed1_def toFixed1_tenths_def Math_round_def)

theorem dashboard_rounding_witness:
  "rounded_to_one_decimal (17 / 4)
     (student_fluency \<lparr>completion_rate = 133 / 2, avg_fluency_score = 17 / 4,
        avg_accuracy_score = 3\<rparr>)
   \<and> 133 / 2 < real_of_int (student_completion \<lparr>completion_rate = 133 / 2,
        avg_fluency_score = 17 / 4, avg_accuracy_score = 3\<rparr>) + 1 / 2"
  using dashboard_rounding
    [of "\<lparr>completion_rate = 133 / 2, avg_fluency_score = 17 / 4, avg_accuracy_score = 3\<rparr>"
      "\<lparr>average_completion_rate = None\<rparr>"]
  by simp


section \<open>Properties of the review of recordings\<close>

lemma review_rel_iff:
  "review_rel r0 r \<longleftrightarrow>
     r = r0 \<or>
     (status r0 \<noteq> Flagged \<and>
      (\<exists>fb. r = r0\<lparr>status := Reviewed, teacher_feedback := Some fb\<rparr>))"
proof -
  have "(teacher_feedback r \<noteq> None \<and>
         r = r0\<lparr>status := Reviewed, teacher_feedback := teacher_feedback r\<rparr>)
        \<longleftrightarrow> (\<exists>fb. r = r0\<lparr>status := Reviewed, teacher_feedback := Some fb\<rparr>)"
  proof
    assume a: "teacher_feedback r \<noteq> None \<and>
         r = r0\<lparr>status := Reviewed, teacher_feedback := teacher_feedback r\<rparr>"
    then obtain fb where "teacher_feedback r = Some fb" by auto
    then have "r = r0\<lparr>status := Reviewed, teacher_feedback := Some fb\<rparr>"
      using a by simp
    then show "\<exists>fb. r = r0\<lparr>status := Reviewed, teacher_feedback := Some fb\<rparr>" ..
  next
    assume "\<exists>fb. r = r0\<lparr>status := Reviewed, teacher_feedback := Some fb\<rparr>"
    then obtain fb where "r = r0\<lparr>status := Reviewed, teacher_feedback := Some fb\<rparr>" ..
    then show "teacher_feedback r \<noteq> None \<and>
         r = r0\<lparr>status := Reviewed, teacher_feedback := teacher_feedback r\<rparr>"
      by simp
  qed
  then show ?thesis unfolding review_rel_def by blast
qed

lemma review_rel_refl: "review_rel r r"
  by (simp add: review_rel_iff)

lemma review_rel_trans: "review_rel r0 r1 \<Longrightarrow> review_rel r1 r2 \<Longrightarrow> review_rel r0 r2"
  by (auto simp add: review_rel_iff)

lemma list_all2_review_rel_refl: "list_all2 review_rel rs rs"
  by (simp add: list_all2_refl review_rel_refl)

lemma list_all2_review_rel_trans:
  "list_all2 review_rel xs ys \<Longrightarrow> list_all2 review_rel ys zs \<Longrightarrow> list_all2 review_rel xs zs"
  by (rule list_all2_trans [of review_rel review_rel review_rel]) (auto intro: review_rel_trans)

lemma rec_id_mark_reviewed: "rec_id (mark_reviewed i fb r) = rec_id r"
  by (simp add: mark_reviewed_def)

lemma map_rec_id_mark_reviewed: "map rec_id (map (mark_reviewed i fb) rs) = map rec_id rs"
  by (simp add: rec_id_mark_reviewed)

lemma same_id_same_recording:
  "distinct (map rec_id rs) \<Longrightarrow> r \<in> set rs \<Longrightarrow> sel \<in> set rs \<Longrightarrow> rec_id r = rec_id sel
     \<Longrightarrow> r = sel"
  by (meson distinct_map inj_onD)

lemma mark_reviewed_rel:
  assumes "distinct (map rec_id rs)" "sel \<in> set rs" "status sel \<noteq> Flagged" "r \<in> set rs"
  shows "review_rel r (mark_reviewed (rec_id sel) fb r)"
proof (cases "rec_id r = rec_id sel")
  case True
  then have "r = sel" using assms same_id_same_recording by blast
  then show ?thesis using assms(3) True by (auto simp add: review_rel_iff mark_reviewed_def)
next
  case False
  then show ?thesis by (simp add: review_rel_iff mark_reviewed_def)
qed

lemma selectable_subset:
  "r \<in> set (selectable s) \<Longrightarrow> r \<in> set (recordings s) \<and> status r \<noteq> Flagged"
  by (auto simp add: selectable_def pendingRecordings_def reviewedRecordings_def
      dest!: in_set_takeD)

lemma handleSubmitReview_rel:
  assumes "review_inv s"
  shows "list_all2 review_rel (recordings s) (recordings (handleSubmitReview resolved s))"
proof (cases "selectedRecording s")
  case None
  then show ?thesis by (simp add: handleSubmitReview_def list_all2_review_rel_refl)
next
  case (Some sel)
  show ?thesis
  proof (cases resolved)
    case False
    then show ?thesis using Some by (simp add: handleSubmitReview_def list_all2_review_rel_refl)
  next
    case True
    have inv: "distinct (map rec_id (recordings s))" "sel \<in> set (recordings s)"
      "status sel \<noteq> Flagged"
      using assms Some by (simp_all add: review_inv_def)
    have "list_all2 review_rel (recordings s)
            (map (mark_reviewed (rec_id sel) (feedback (reviewForm s))) (recordings s))"
      unfolding list_all2_map2
      by (rule list_all2_all_nthI) (auto intro: mark_reviewed_rel [OF inv])
    then show ?thesis using Some True by (simp add: handleSubmitReview_def)
  qed
qed

lemma handleSubmitReview_inv:
  assumes "review_inv s"
  shows "review_inv (handleSubmitReview resolved s)"
  using assms
  by (auto simp add: review_inv_def handleSubmitReview_def map_rec_id_mark_reviewed
      simp del: map_map split: option.splits)

lemma review_step_rel:
  "review_inv s \<Longrightarrow> list_all2 review_rel (recordings s) (recordings (review_step s e))"
  by (cases e)
    (simp_all add: handleSubmitReview_rel list_all2_review_rel_refl handleSelectRecording_def)

lemma review_step_inv: "review_inv s \<Longrightarrow> review_inv (review_step s e)"
proof (cases e)
  case (ClickReview r)
  assume "review_inv s"
  then show ?thesis
    using ClickReview selectable_subset [of r s]
    by (auto simp add: review_inv_def handleSelectRecording_def)
next
  case (SubmitForm resolved)
  assume "review_inv s"
  then show ?thesis using SubmitForm by (simp add: handleSubmitReview_inv)
qed (auto simp add: review_inv_def split: option.splits)

lemma review_run_inv: "review_inv s \<Longrightarrow> review_inv (review_run s events)"
  unfolding review_run_def
  by (induction events arbitrary: s) (simp_all add: review_step_inv)

lemma review_run_rel:
  "review_inv s \<Longrightarrow> list_all2 review_rel (recordings s) (recordings (review_run s events))"
  unfolding review_run_def
proof (induction events arbitrary: s)
  case Nil
  then show ?case by (simp add: list_all2_review_rel_refl)
next
  case (Cons e events)
  have "list_all2 review_rel (recordings s) (recordings (review_step s e))"
    using Cons.prems by (rule review_step_rel)
  moreover have "list_all2 review_rel (recordings (review_step s e))
      (recordings (foldl review_step (review_step s e) events))"
    using Cons.prems by (intro Cons.IH review_step_inv)
  ultimately show ?case by (simp add: list_all2_review_rel_trans)
qed

lemma loaded_inv: "distinct (map rec_id results) \<Longrightarrow> review_inv (loaded results)"
  by (simp add: review_inv_def loaded_def)

lemma review_run_append: "review_run s (xs @ ys) = review_run (review_run s xs) ys"
  by (simp add: review_run_def)

lemma review_rel_fields:
  "review_rel r0 r \<Longrightarrow>
     fluency_score r = fluency_score r0 \<and> accuracy_score r = accuracy_score r0 \<and>
     rec_id r = rec_id r0 \<and>
     (status r = status r0 \<or> (status r0 = Pending \<and> status r = Reviewed)) \<and>
     (status r0 = Flagged \<longrightarrow> r = r0)"
  by (cases "status r0") (auto simp add: review_rel_iff)

text \<open>
  Claim C1, amended. On the review screen, with distinct recording ids, between any
  two moments of a session every recording either keeps its status or goes from
  pending to reviewed: none goes back to pending, none becomes flagged, and a flagged
  one is not changed at all. The step that sets the status to reviewed sets the
  feedback with it and leaves the fluency and accuracy scores of the recording as
  they were; the scores travel in the body of the request only.
\<close>

theorem review_status_transitions:
  assumes "distinct (map rec_id results)"
  shows "length (recordings (review_run (loaded results) (before @ after))) = length results
    \<and> (\<forall>i < length results.
         let r0 = recordings (review_run (loaded results) before) ! i;
             r = recordings (review_run (loaded results) (before @ after)) ! i
         in review_rel r0 r \<and>
            (status r = status r0 \<or> (status r0 = Pending \<and> status r = Reviewed)) \<and>
            (status r0 = Flagged \<longrightarrow> r = r0) \<and>
            fluency_score r = fluency_score r0 \<and> accuracy_score r = accuracy_score r0)"
proof -
  let ?s = "review_run (loaded results) before"
  let ?s' = "review_run (loaded results) (before @ after)"
  have inv: "review_inv ?s" using assms by (intro review_run_inv loaded_inv)
  have a: "list_all2 review_rel results (recordings ?s)"
    using review_run_rel [OF loaded_inv [OF assms], of before] by (simp add: loaded_def)
  have b: "list_all2 review_rel (recordings ?s) (recordings ?s')"
    using review_run_rel [OF inv, of after] by (simp add: review_run_append)
  have len1: "length (recordings ?s) = length results"
    using a by (simp add: list_all2_lengthD)
  have len2: "length (recordings ?s') = length results"
    using b len1 by (metis list_all2_lengthD)
  note len = len1 len2
  have "\<And>i. i < length results \<Longrightarrow> review_rel (recordings ?s ! i) (recordings ?s' ! i)"
    using b len by (simp add: list_all2_nthD)
  then show ?thesis using len(2) review_rel_fields by (simp add: Let_def)
qed

lemma not_blank_good_pacing: "\<not> blank ''Good pacing''"
  by code_simp

lemma tortoise_selectable: "tortoise_recording \<in> set (selectable (loaded [tortoise_recording]))"
  by (simp add: selectable_def pendingRecordings_def loaded_def tortoise_recording_def)

lemma tortoise_run:
  "recordings (review_run (loaded [tortoise_recording]) tortoise_review) =
     [tortoise_recording\<lparr>status := Reviewed, teacher_feedback := Some ''Good pacing''\<rparr>]"
  using not_blank_good_pacing tortoise_selectable
  by (simp add: review_run_def tortoise_review_def handleSelectRecording_def
      handleSubmitReview_def mark_reviewed_def loaded_def)

text \<open>
  Claim C1 says that scores are present exactly when the status is reviewed, and that
  every operation that sets the status to reviewed sets both scores. On the screen it
  fails: after the review of the scenario the recording is reviewed and has no scores.
\<close>

theorem review_without_scores_counterexample:
  "status (hd (recordings (review_run (loaded [tortoise_recording]) tortoise_review))) = Reviewed
   \<and> fluency_score (hd (recordings (review_run (loaded [tortoise_recording]) tortoise_review)))
       = None
   \<and> accuracy_score (hd (recordings (review_run (loaded [tortoise_recording]) tortoise_review)))
       = None"
  by (simp add: tortoise_run) (simp add: tortoise_recording_def)

text \<open>
  Claim C2. A review submitted for a recording whose status is not pending fails with
  \<open>AlreadyReviewed\<close>, and the rows of the backend and the list on the screen stay as
  they were; it succeeds only when the recording exists and is pending (and both scores
  are within 1 to 5); a score outside 1 to 5 is rejected with \<open>InvalidScore\<close>, and an
  unknown id with \<open>NotFound\<close>.
\<close>

theorem review_rejected_unless_pending:
  assumes "selectedRecording s = Some selected"
  shows
    "let p = review_payload_of (reviewForm s) selected;
         row = find (\<lambda>r. rec_id r = rec_id selected) rows;
         (outcome, rows', s') = submit_to_backend rows now s
     in (row = None \<longrightarrow> outcome = Some (Inl NotFound))
      \<and> (\<forall>r. row = Some r \<and> status r \<noteq> Pending \<longrightarrow> outcome = Some (Inl AlreadyReviewed))
      \<and> (\<forall>r. row = Some r \<and> status r = Pending \<and>
              \<not> (valid_score (payload_fluency_score p) \<and> valid_score (payload_accuracy_score p))
            \<longrightarrow> outcome = Some (Inl InvalidScore))
      \<and> (outcome = Some (Inr ()) \<longleftrightarrow>
            (\<exists>r. row = Some r \<and> status r = Pending) \<and>
            valid_score (form_fluency_score (reviewForm s)) \<and>
            valid_score (form_accuracy_score (reviewForm s)))
      \<and> (outcome \<noteq> Some (Inr ()) \<longrightarrow>
            rows' = rows \<and> recordings s' = recordings s \<and>
            selectedRecording s' = selectedRecording s)"
  using assms
  by (auto simp add: submit_to_backend_def submit_review_def review_payload_of_def
      handleSubmitReview_def Let_def split: option.splits sum.splits)

lemma second_review_state:
  "selectedRecording second_review = Some reviewed_tortoise
   \<and> recordings second_review = [reviewed_tortoise]
   \<and> feedback (reviewForm second_review) = ''Too fast''"
  by (simp add: second_review_def review_run_def loaded_def selectable_def
      pendingRecordings_def reviewedRecordings_def handleSelectRecording_def
      reviewed_tortoise_def tortoise_recording_def)

lemma second_review_row:
  "find (\<lambda>r. rec_id r = rec_id reviewed_tortoise) [reviewed_tortoise] = Some reviewed_tortoise
   \<and> status reviewed_tortoise = Reviewed"
  by (simp add: reviewed_tortoise_def)

theorem review_rejected_unless_pending_witness:
  "selectedRecording second_review = Some reviewed_tortoise
   \<and> submit_to_backend [reviewed_tortoise] ''2024-01-02'' second_review
       = (Some (Inl AlreadyReviewed), [reviewed_tortoise],
          handleSubmitReview False second_review)
   \<and> recordings (handleSubmitReview False second_review) = [reviewed_tortoise]"
proof -
  have sel: "selectedRecording second_review = Some reviewed_tortoise"
    using second_review_state by simp
  obtain outcome rows' s' where
    out: "submit_to_backend [reviewed_tortoise] ''2024-01-02'' second_review
            = (outcome, rows', s')"
    by (cases "submit_to_backend [reviewed_tortoise] ''2024-01-02'' second_review") auto
  have s': "s' = handleSubmitReview False second_review \<or>
            s' = handleSubmitReview True second_review"
    using out sel by (auto simp add: submit_to_backend_def split: sum.splits)
  note inst = review_rejected_unless_pending
    [OF sel, of "[reviewed_tortoise]" "''2024-01-02''"]
  have o: "outcome = Some (Inl AlreadyReviewed)"
    using inst second_review_row by (simp add: Let_def out)
  have "rows' = [reviewed_tortoise] \<and> recordings s' = recordings second_review"
    using inst o by (simp add: Let_def out)
  moreover have "s' = handleSubmitReview False second_review"
    using out sel o by (auto simp add: submit_to_backend_def split: sum.splits)
  ultimately show ?thesis using sel out o second_review_state by simp
qed

lemma tortoise_distinct: "distinct (map rec_id [tortoise_recording])"
  by simp

theorem review_status_transitions_witness:
  "distinct (map rec_id [tortoise_recording])
   \<and> length (recordings (review_run (loaded [tortoise_recording]) ([] @ tortoise_review))) = 1
   \<and> fluency_score (recordings (review_run (loaded [tortoise_recording])
        ([] @ tortoise_review)) ! 0)
      = fluency_score (recordings (review_run (loaded [tortoise_recording]) []) ! 0)"
  using review_status_transitions [OF tortoise_distinct, of "[]" tortoise_review]
  by (simp add: Let_def)

text \<open>
  The handler itself looks at no status: if the request for a recording that is
  already reviewed resolves, the earlier feedback on the screen is replaced.
\<close>

lemma handleSubmitReview_no_status_check:
  "recordings (handleSubmitReview True second_review) =
     [reviewed_tortoise\<lparr>teacher_feedback := Some ''Too fast''\<rparr>]"
  using second_review_state
  by (simp add: handleSubmitReview_def mark_reviewed_def) (simp add: reviewed_tortoise_def)


section \<open>Properties of recording for an assignment\<close>

lemma reader_step_closed:
  assumes "record_disabled props" "\<not> showRecording s" "in_flight s = 0"
  shows "reader_step props s e = s"
  using assms by (cases e) simp_all

lemma reader_run_closed:
  assumes "record_disabled props" "\<not> showRecording s" "in_flight s = 0"
  shows "foldl (reader_step props) s events = s"
  using assms by (induction events) (simp_all add: reader_step_closed)



text \<open>
  What holds of a session on an assignment with the limit \<open>M\<close>, not unlimited: the
  limit stays, the attempts used stay within the bound \<open>B\<close>, and what was served when
  the attempts used had reached the limit was rejected.
\<close>

lemma serve_reader: "reader (serve config ss form) = reader ss"
  by (simp add: serve_def split: sum.splits)


lemma foldl_serve_reader: "reader (foldl (serve config) ss forms) = reader ss"
  by (induction forms arbitrary: ss) (simp_all add: serve_reader)












text \<open>
  The submit button of the recorder can be pressed again before the answer to the
  first upload has come: with one attempt left both recordings are posted, and the
  backend accepts the first and rejects the second.
\<close>

lemma second_press_posts_again:
  "map served_result (outcomes (session_run recorder_store (tortoise_reader 2)
      (tortoise_progress 2) [ClickRecord, SubmitRecording 2048, SubmitRecording 2048]))
     = [Inr (), Inl AttemptLimitExceeded]"
  by (simp add: session_run_def session_start_def
      session_step_def serve_def request_of_def reader_initial_def tortoise_reader_def
      reported_assignment_def record_disabled_def allowance_left_def unlimited_def
      tortoise_progress_def handleStartRecording_def handleRecordingComplete_def
      upload_answered_def upload_recording_def recorder_store_def Let_def)


section \<open>Properties of the flags\<close>

lemma unresolved_for_update_flag [simp]:
  "unresolved_for student kind (update_flag e f) = unresolved_for student kind f"
  by (simp add: update_flag_def unresolved_for_def)

lemma resolved_on_update_flag [simp]:
  "resolved_on window student kind (update_flag e f) = resolved_on window student kind f"
  by (simp add: update_flag_def resolved_on_def)

lemma unresolved_count_update:
  "unresolved_count (map (update_flag e) flags) student kind = unresolved_count flags student kind"
  by (simp add: unresolved_count_def filter_map o_def)

lemma suppressed_update:
  "suppressed window (map (update_flag e) flags) student kind = suppressed window flags student kind"
  by (simp add: suppressed_def list_ex_iff)

lemma has_unresolved_count:
  "has_unresolved flags student kind \<longleftrightarrow> unresolved_count flags student kind > 0"
  by (auto simp add: has_unresolved_def unresolved_count_def list_ex_iff filter_empty_conv
      length_greater_0_conv [symmetric] simp del: length_greater_0_conv)

lemma unresolved_count_emit:
  "unresolved_count (emit_flag window flags e) student kind =
     (if \<not> settled window flags e \<and> student = emitted_student e \<and> kind = emitted_type e
      then 1 else unresolved_count flags student kind)"
proof (cases "has_unresolved flags (emitted_student e) (emitted_type e)")
  case True
  then show ?thesis by (simp add: emit_flag_def settled_def unresolved_count_update)
next
  case False
  then have zero: "unresolved_count flags (emitted_student e) (emitted_type e) = 0"
    by (simp add: has_unresolved_count)
  show ?thesis
    using False zero
    by (auto simp add: emit_flag_def settled_def unresolved_count_def new_flag_def
        unresolved_for_def)
qed

lemma one_unresolved_iff:
  "one_unresolved flags \<longleftrightarrow> (\<forall>student kind. unresolved_count flags student kind \<le> 1)"
proof
  assume l: "one_unresolved flags"
  show "\<forall>student kind. unresolved_count flags student kind \<le> 1"
  proof (intro allI)
    fix student kind
    show "unresolved_count flags student kind \<le> 1"
    proof (cases "has_unresolved flags student kind")
      case False
      then show ?thesis by (simp add: has_unresolved_count)
    next
      case True
      then obtain f where f: "f \<in> set flags" "unresolved_for student kind f"
        by (auto simp add: has_unresolved_def list_ex_iff)
      then have "flag_student f = student" "flag_type f = kind"
        by (simp_all add: unresolved_for_def)
      then show ?thesis using l f(1) by (auto simp add: one_unresolved_def list_all_iff)
    qed
  qed
next
  assume "\<forall>student kind. unresolved_count flags student kind \<le> 1"
  then show "one_unresolved flags" by (simp add: one_unresolved_def list_all_iff)
qed

lemma one_unresolved_emit:
  "one_unresolved flags \<Longrightarrow> one_unresolved (emit_flag window flags e)"
  by (simp add: one_unresolved_iff unresolved_count_emit)

lemma one_unresolved_foldl:
  "one_unresolved flags \<Longrightarrow> one_unresolved (foldl (emit_flag window) flags es)"
  by (induction es arbitrary: flags) (simp_all add: one_unresolved_emit)

lemma has_unresolved_emit_mono:
  "has_unresolved flags student kind \<Longrightarrow> has_unresolved (emit_flag window flags e) student kind"
  by (simp add: has_unresolved_count unresolved_count_emit)

lemma suppressed_emit_mono:
  "suppressed window flags student kind \<Longrightarrow> suppressed window (emit_flag window flags e) student kind"
  by (auto simp add: emit_flag_def suppressed_update) (simp add: suppressed_def)

lemma settled_emit_mono:
  "settled window flags e' \<Longrightarrow> settled window (emit_flag window flags e) e'"
  by (auto simp add: settled_def has_unresolved_emit_mono suppressed_emit_mono)

lemma settled_emit_self: "settled window (emit_flag window flags e) e"
proof (cases "settled window flags e")
  case True
  then show ?thesis by (rule settled_emit_mono)
next
  case False
  then have "unresolved_count (emit_flag window flags e) (emitted_student e) (emitted_type e) = 1"
    by (simp add: unresolved_count_emit)
  then show ?thesis by (simp add: settled_def has_unresolved_count)
qed

lemma settled_foldl_mono:
  "settled window flags e \<Longrightarrow> settled window (foldl (emit_flag window) flags es) e"
  by (induction es arbitrary: flags) (simp_all add: settled_emit_mono)

lemma settled_foldl_emitted:
  "e \<in> set es \<Longrightarrow> settled window (foldl (emit_flag window) flags es) e"
proof (induction es arbitrary: flags)
  case Nil
  then show ?case by simp
next
  case (Cons a es)
  show ?case
  proof (cases "e = a")
    case True
    then show ?thesis by (simp add: settled_foldl_mono settled_emit_self)
  next
    case False
    then show ?thesis using Cons by simp
  qed
qed

lemma same_but_severity_refl: "same_but_severity f f"
  by (simp add: same_but_severity_def)

lemma same_but_severity_trans:
  "same_but_severity f g \<Longrightarrow> same_but_severity g h \<Longrightarrow> same_but_severity f h"
  by (cases f, cases g, cases h) (simp add: same_but_severity_def)

lemma same_but_severity_update: "same_but_severity f (update_flag e f)"
  by (simp add: same_but_severity_def update_flag_def)

lemma emit_flag_updates:
  assumes "settled window flags e"
  shows "list_all2 same_but_severity flags (emit_flag window flags e)"
  using assms
  by (auto simp add: emit_flag_def settled_def list_all2_map2 list_all2_refl
      same_but_severity_update same_but_severity_refl)

lemma list_all2_same_trans:
  "list_all2 same_but_severity xs ys \<Longrightarrow> list_all2 same_but_severity ys zs
     \<Longrightarrow> list_all2 same_but_severity xs zs"
  by (rule list_all2_trans [of same_but_severity same_but_severity same_but_severity])
    (auto intro: same_but_severity_trans)

lemma foldl_emit_updates:
  assumes "\<forall>e \<in> set es. settled window flags e"
  shows "list_all2 same_but_severity flags (foldl (emit_flag window) flags es)"
  using assms
proof (induction es arbitrary: flags)
  case Nil
  then show ?case by (simp add: list_all2_refl same_but_severity_refl)
next
  case (Cons a es)
  have step: "list_all2 same_but_severity flags (emit_flag window flags a)"
    using Cons.prems by (simp add: emit_flag_updates)
  have "\<forall>e \<in> set es. settled window (emit_flag window flags a) e"
    using Cons.prems by (simp add: settled_emit_mono)
  then have "list_all2 same_but_severity (emit_flag window flags a)
      (foldl (emit_flag window) (emit_flag window flags a) es)"
    by (rule Cons.IH)
  then show ?case using step by (simp add: list_all2_same_trans)
qed

lemma same_but_severity_fields:
  "same_but_severity f g \<Longrightarrow>
     flag_id g = flag_id f \<and> flag_student g = flag_student f \<and> flag_type g = flag_type f \<and>
     is_resolved g = is_resolved f \<and> resolution_notes g = resolution_notes f"
  by (cases f, cases g) (simp add: same_but_severity_def)

text \<open>
  Claim C6. For every student and flag type at most one unresolved flag exists at any
  time: a run of the engine keeps it so, and a second run on the same data creates no
  flag (the ids stay the same) and changes at most severity and description of the
  flags that are there; likewise any emission for a pair that has an unresolved flag
  updates in place and leaves exactly one unresolved flag for the pair.
\<close>

theorem rerun_creates_no_duplicate:
  assumes "one_unresolved flags"
  shows "one_unresolved (run_engine rules window data flags)
    \<and> one_unresolved (run_engine rules window data (run_engine rules window data flags))
    \<and> list_all2 same_but_severity (run_engine rules window data flags)
         (run_engine rules window data (run_engine rules window data flags))
    \<and> map flag_id (run_engine rules window data (run_engine rules window data flags))
         = map flag_id (run_engine rules window data flags)
    \<and> (\<forall>e :: emission. has_unresolved flags (emitted_student e) (emitted_type e) \<longrightarrow>
          list_all2 same_but_severity flags (emit_flag window flags e) \<and>
          unresolved_count (emit_flag window flags e) (emitted_student e) (emitted_type e) = 1)"
proof -
  let ?once = "run_engine rules window data flags"
  let ?twice = "run_engine rules window data ?once"
  have one: "one_unresolved ?once"
    using assms by (simp add: run_engine_def one_unresolved_foldl)
  then have two: "one_unresolved ?twice"
    by (simp add: run_engine_def one_unresolved_foldl)
  have "\<forall>e \<in> set (rules data). settled window ?once e"
    by (simp add: run_engine_def settled_foldl_emitted)
  then have same: "list_all2 same_but_severity ?once ?twice"
    unfolding run_engine_def [of rules window data ?once] by (rule foldl_emit_updates)
  have ids: "map flag_id ?twice = map flag_id ?once"
  proof (rule nth_equalityI)
    show "length (map flag_id ?twice) = length (map flag_id ?once)"
      using same by (simp add: list_all2_lengthD)
  next
    fix i assume "i < length (map flag_id ?twice)"
    then have i: "i < length ?once" "i < length ?twice"
      using same by (simp_all add: list_all2_lengthD)
    then have "same_but_severity (?once ! i) (?twice ! i)"
      using same by (simp add: list_all2_nthD)
    then show "map flag_id ?twice ! i = map flag_id ?once ! i"
      using i same_but_severity_fields by simp
  qed
  have single: "\<forall>e :: emission. has_unresolved flags (emitted_student e) (emitted_type e) \<longrightarrow>
          list_all2 same_but_severity flags (emit_flag window flags e) \<and>
          unresolved_count (emit_flag window flags e) (emitted_student e) (emitted_type e) = 1"
  proof (intro allI impI conjI)
    fix e :: emission assume h: "has_unresolved flags (emitted_student e) (emitted_type e)"
    then have s: "settled window flags e" by (simp add: settled_def)
    show "list_all2 same_but_severity flags (emit_flag window flags e)"
      using s by (rule emit_flag_updates)
    have "unresolved_count flags (emitted_student e) (emitted_type e) \<le> 1"
      using assms by (simp add: one_unresolved_iff)
    moreover have "unresolved_count flags (emitted_student e) (emitted_type e) > 0"
      using h by (simp add: has_unresolved_count)
    ultimately show "unresolved_count (emit_flag window flags e) (emitted_student e) (emitted_type e) = 1"
      using s by (simp add: unresolved_count_emit)
  qed
  from one two same ids single show ?thesis by (intro conjI)
qed

lemma gap_once:
  "run_engine gap_rules 3 10 [] =
     [\<lparr>flag_id = 1, flag_student = 1, flag_type = SubmissionGap, severity = Medium,
       description = ''No submission'', is_resolved = False, resolution_notes = None,
       resolved_window = None\<rparr>]"
  by (simp add: run_engine_def gap_rules_def emit_flag_def has_unresolved_def suppressed_def
      new_flag_def fresh_id_def)

lemma one_unresolved_empty: "one_unresolved []"
  by (simp add: one_unresolved_def)

theorem rerun_creates_no_duplicate_witness:
  "one_unresolved []
   \<and> map flag_id (run_engine gap_rules 3 10 (run_engine gap_rules 3 10 [])) = [1]
   \<and> one_unresolved (run_engine gap_rules 3 10 (run_engine gap_rules 3 10 []))"
proof -
  note inst = rerun_creates_no_duplicate
    [OF one_unresolved_empty, where rules = gap_rules and window = 3 and data = 10]
  have "map flag_id (run_engine gap_rules 3 10 (run_engine gap_rules 3 10 [])) = [1]"
    using inst [THEN conjunct2, THEN conjunct2, THEN conjunct2, THEN conjunct1]
    by (simp add: gap_once)
  then show ?thesis
    using one_unresolved_empty inst [THEN conjunct2, THEN conjunct1] by (intro conjI)
qed

text \<open>
  A flag that the teacher resolves on the window of the run is not raised again by a
  run on that window; a run on a later window raises a new one.
\<close>

lemma resolved_flag_not_raised_again:
  "run_engine gap_rules 3 10 (resolve_flag 1 ''Addressed with student'' 3
      (run_engine gap_rules 3 10 []))
     = resolve_flag 1 ''Addressed with student'' 3 (run_engine gap_rules 3 10 [])
   \<and> map flag_id (run_engine gap_rules 4 17 (resolve_flag 1 ''Addressed with student'' 3
        (run_engine gap_rules 3 10 []))) = [1, 2]"
  by (simp add: gap_once)
    (simp add: run_engine_def gap_rules_def emit_flag_def has_unresolved_def suppressed_def
      resolved_on_def unresolved_for_def resolve_flag_def new_flag_def fresh_id_def)


end
